theory Spec2Isabelle
  imports Main
begin


section \<open>C-level notions shared by both programs\<close>

text \<open>
  A C \<open>char\<close> is a HOL \<open>char\<close> (one byte); buffers and file contents are lists of them.
\<close>

type_synonym bytes = "char list"

definition NUL :: char where
  "NUL = CHR 0x00"

text \<open>
  An open file descriptor on a regular file: the file's contents and the current offset.
  \<open>read(fd, buf, n)\<close> returns the next at most \<open>n\<close> bytes and advances the offset;
  its return value is the number of bytes returned (0 at end of file). Reading and
  seeking in a regular file do not fail here; the checks the source makes on their
  results are kept where it makes them.
\<close>

type_synonym fildes = "bytes \<times> nat"

definition read_fd :: "fildes \<Rightarrow> nat \<Rightarrow> bytes \<times> fildes" where
  "read_fd fd n =
     (let buf = take n (drop (snd fd) (fst fd))
      in (buf, (fst fd, snd fd + length buf)))"

definition lseek_set :: "fildes \<Rightarrow> nat \<Rightarrow> int \<times> fildes" where
  "lseek_set fd off = (int off, (fst fd, off))"

section \<open>mtdutils/flash\_image.c\<close>

subsection \<open>The raw partition and its primitives\<close>

definition HEADER_SIZE :: nat where
  "HEADER_SIZE = 2048"

text \<open>
  Modelled from the spec: \<open>mtdutils.h\<close> / \<open>mtdutils.c\<close> (the type \<open>MtdPartition\<close> and
  the functions \<open>mtd_read_partition\<close>, \<open>mtd_read_data\<close>, \<open>mtd_write_partition\<close>,
  \<open>mtd_write_data\<close>, \<open>mtd_write_close\<close>, \<open>mtd_partition_info\<close>) are not among the
  sources. The spec describes a partition as a raw addressable storage region with
  a fixed block size, with open-for-read, open-for-write and close primitives, on
  which a write session starts at the beginning of the partition and is committed
  by its close, and which requires whole-block writes.

  A partition is its contents, its block size, whether it can be opened for reading
  and for writing, and the number of \<open>mtd_write_data\<close> calls it has accepted.
  A read or write context is the offset reached in the partition.
  A write replaces the bytes at the offset and fails (returns \<open>-1\<close>, writing nothing)
  when it would run past the end of the partition. Closing a write session
  completes the block it stopped in with zero bytes, and fails when the partition
  ends before that block does.
\<close>

record MtdPartition =
  p_data :: bytes
  p_erase_size :: nat
  p_can_read :: bool
  p_can_write :: bool
  p_nwrites :: nat

definition overwrite :: "nat \<Rightarrow> bytes \<Rightarrow> bytes \<Rightarrow> bytes" where
  "overwrite pos bs d = take pos d @ bs @ drop (pos + length bs) d"

definition mtd_read_partition :: "MtdPartition \<Rightarrow> nat option" where
  "mtd_read_partition p = (if p_can_read p then Some 0 else None)"

definition mtd_read_data :: "MtdPartition \<Rightarrow> nat \<Rightarrow> nat \<Rightarrow> int \<times> bytes" where
  "mtd_read_data p pos len =
     (let buf = take len (drop pos (p_data p)) in (int (length buf), buf))"

definition mtd_write_partition :: "MtdPartition \<Rightarrow> nat option" where
  "mtd_write_partition p = (if p_can_write p then Some 0 else None)"

definition mtd_write_data :: "MtdPartition \<Rightarrow> nat \<Rightarrow> bytes \<Rightarrow> int \<times> MtdPartition \<times> nat" where
  "mtd_write_data p pos buf =
     (if pos + length buf \<le> length (p_data p)
      then (int (length buf),
            p\<lparr>p_data := overwrite pos buf (p_data p), p_nwrites := Suc (p_nwrites p)\<rparr>,
            pos + length buf)
      else (-1, p, pos))"

definition block_padding :: "nat \<Rightarrow> nat \<Rightarrow> nat" where
  "block_padding bs pos = (if bs = 0 then 0 else (bs - pos mod bs) mod bs)"

definition mtd_write_close :: "MtdPartition \<Rightarrow> nat \<Rightarrow> int \<times> MtdPartition" where
  "mtd_write_close p pos =
     (let pad = block_padding (p_erase_size p) pos in
      if pos + pad \<le> length (p_data p)
      then (0, p\<lparr>p_data := overwrite pos (replicate pad NUL) (p_data p)\<rparr>)
      else (-1, p))"

definition mtd_partition_info :: "MtdPartition \<Rightarrow> int \<times> nat" where
  "mtd_partition_info p = (0, p_erase_size p)"

subsection \<open>The flashing tool\<close>

text \<open>
  How \<open>main\<close> ends: it returns a value, it calls \<open>die\<close> (which prints the message
  and exits with code 1), or it never ends.
\<close>

datatype outcome = Return int | Die string | Hang

fun exit_code :: "outcome \<Rightarrow> int option" where
  "exit_code (Return n) = Some n"
| "exit_code (Die msg) = Some 1"
| "exit_code Hang = None"

text \<open>
  The world the tool runs in: the result of \<open>mtd_scan_partitions\<close>, the partitions by
  name, and the files by path.
\<close>

record flash_world =
  mtd_scan :: int
  mtd_parts :: "string \<rightharpoonup> MtdPartition"
  fs_files :: "string \<rightharpoonup> bytes"

text \<open>The body of the loop over \<open>argv[1..argc-1]\<close> (lines 70--77).\<close>

fun scan_arg :: "bool \<times> string option \<times> string option \<Rightarrow> string
    \<Rightarrow> bool \<times> string option \<times> string option" where
  "scan_arg (deleteImage, partitionName, imageFile) a =
     (if a = ''-d'' then (True, partitionName, imageFile)
      else if partitionName = None then (deleteImage, Some a, imageFile)
      else (deleteImage, partitionName, Some a))"

text \<open>
  The skip check (lines 99--116): the partition can be opened and read, the read
  returns as many bytes as the header has, and they are the header's.
\<close>

definition header_same :: "MtdPartition \<Rightarrow> bytes \<Rightarrow> bool" where
  "header_same p header =
     (case mtd_read_partition p of
        None \<Rightarrow> False
      | Some rpos \<Rightarrow>
          (let (checklen, chk) = mtd_read_data p rpos HEADER_SIZE;
               headerlen = int (length header)
           in if checklen \<le> 0 then False
              else checklen = headerlen
                   \<and> take (nat headerlen) header = take (nat headerlen) chk))"

text \<open>
  The copy loop of lines 130--134: read the image in pieces of at most
  \<open>sizeof(buf)\<close> bytes and write each, until a read returns nothing; the message of
  \<open>die\<close> when a write is incomplete or the last read failed.
\<close>

function write_rest :: "fildes \<Rightarrow> MtdPartition \<Rightarrow> nat
    \<Rightarrow> string option \<times> fildes \<times> MtdPartition \<times> nat" where
  "write_rest fd p out =
     (let r = read_fd fd HEADER_SIZE; buf = fst r; fd' = snd r; len = int (length buf) in
      if len > 0 then
        (let w = mtd_write_data p out buf in
         if fst w \<noteq> len then (Some ''error writing'', fd', fst (snd w), snd (snd w))
         else write_rest fd' (fst (snd w)) (snd (snd w)))
      else if len < 0 then (Some ''error reading'', fd', p, out)
      else (None, fd', p, out))"
  by pat_completeness auto
termination
  by (relation "measure (\<lambda>(fd, p, out). length (fst fd) - snd fd)")
     (auto simp: read_fd_def Let_def)

text \<open>
  Lines 118--136: open a write session, write \<open>headerlen\<close> zero bytes in place of the
  header, copy the rest of the image, close the session. \<open>None\<close>: the step is complete.
\<close>

definition flash_body :: "MtdPartition \<Rightarrow> fildes \<Rightarrow> nat \<Rightarrow> outcome option \<times> MtdPartition \<times> fildes" where
  "flash_body p fd headerlen =
     (case mtd_write_partition p of
        None \<Rightarrow> (Some (Die ''error writing''), p, fd)
      | Some out \<Rightarrow>
          (let w = mtd_write_data p out (replicate headerlen NUL) in
           if fst w \<noteq> int headerlen then (Some (Die ''error writing''), fst (snd w), fd)
           else
             (case write_rest fd (fst (snd w)) (snd (snd w)) of
                (Some msg, fd', p', out') \<Rightarrow> (Some (Die msg), p', fd')
              | (None, fd', p', out') \<Rightarrow>
                  (let c = mtd_write_close p' out' in
                   if fst c \<noteq> 0 then (Some (Die ''error closing''), snd c, fd')
                   else (None, snd c, fd')))))"

text \<open>
  Line 155, \<open>while (left < 0) left += block_size\<close>. With a block size of 0 the loop
  never ends: that is the value \<open>None\<close>.
\<close>

function first_block_left :: "int \<Rightarrow> nat \<Rightarrow> int option" where
  "first_block_left left block_size =
     (if left < 0
      then (if block_size = 0 then None
            else first_block_left (left + int block_size) block_size)
      else Some left)"
  by pat_completeness auto
termination
  by (relation "measure (\<lambda>(left, block_size). nat (- left))") auto

text \<open>
  The loop of lines 156--162: complete the first block from the image, in pieces of
  at most \<open>sizeof(buf)\<close> bytes. The flag is false when the image ends early or a
  write is incomplete; the message says which.
\<close>

function write_block_rest :: "int \<Rightarrow> fildes \<Rightarrow> MtdPartition \<Rightarrow> nat
    \<Rightarrow> string option \<times> fildes \<times> MtdPartition \<times> nat" where
  "write_block_rest left fd p out =
     (if left > 0 then
        (let r = read_fd fd (nat (if left > int HEADER_SIZE then int HEADER_SIZE else left));
             buf = fst r; fd' = snd r in
         if int (length buf) \<le> 0 then (Some ''error reading'', fd', p, out)
         else
           (let w = mtd_write_data p out buf in
            if fst w \<noteq> int (length buf) then (Some ''error writing'', fd', fst (snd w), snd (snd w))
            else write_block_rest (left - int (length buf)) fd' (fst (snd w)) (snd (snd w))))
      else (None, fd, p, out))"
  by pat_completeness auto
termination
  by (relation "measure (\<lambda>(left, fd, p, out). nat left)") auto

text \<open>
  Lines 138--164: open a second write session, write the real header, then the rest
  of the first block from the image, and close.
\<close>

definition flash_header :: "MtdPartition \<Rightarrow> fildes \<Rightarrow> bytes \<Rightarrow> outcome option \<times> MtdPartition" where
  "flash_header p fd header =
     (let headerlen = length header in
      case mtd_write_partition p of
        None \<Rightarrow> (Some (Die ''error re-opening''), p)
      | Some out \<Rightarrow>
          (let w = mtd_write_data p out header; p1 = fst (snd w); out1 = snd (snd w) in
           if fst w \<noteq> int headerlen then (Some (Die ''error re-writing''), p1)
           else
             (let info = mtd_partition_info p1; block_size = snd info in
              if fst info \<noteq> 0 then (Some (Die ''error getting block size''), p1)
              else
                (let sk = lseek_set fd headerlen in
                 if fst sk \<noteq> int headerlen then (Some (Die ''error rewinding''), p1)
                 else
                   (case first_block_left (int block_size - int headerlen) block_size of
                      None \<Rightarrow> (Some Hang, p1)
                    | Some left \<Rightarrow>
                        (case write_block_rest left (snd sk) p1 out1 of
                           (Some msg, fd', p2, out2) \<Rightarrow> (Some (Die msg), p2)
                         | (None, fd', p2, out2) \<Rightarrow>
                             (let c = mtd_write_close p2 out2 in
                              if fst c \<noteq> 0 then (Some (Die ''error closing''), snd c)
                              else (None, snd c))))))))"

definition unlink_image :: "bool \<Rightarrow> string \<Rightarrow> flash_world \<Rightarrow> flash_world" where
  "unlink_image deleteImage imageFile w =
     (if deleteImage then w\<lparr>fs_files := (fs_files w)(imageFile := None)\<rparr> else w)"

definition store_partition :: "string \<Rightarrow> MtdPartition \<Rightarrow> flash_world \<Rightarrow> flash_world" where
  "store_partition partitionName p w = w\<lparr>mtd_parts := (mtd_parts w)(partitionName \<mapsto> p)\<rparr>"

text \<open>\<open>main\<close> of flash\_image.c: the argument vector and the world in, how it ends and the world out.\<close>

definition flash_image_main :: "flash_world \<Rightarrow> string list \<Rightarrow> outcome \<times> flash_world" where
  "flash_image_main w argv =
     (let argc = length argv in
      if argc < 3 \<or> argc > 4 then (Return 2, w)
      else
        (case foldl scan_arg (False, None, None) (tl argv) of
           (deleteImage, None, _) \<Rightarrow> (Return 2, w)
         | (deleteImage, Some partitionName, None) \<Rightarrow> (Return 2, w)
         | (deleteImage, Some partitionName, Some imageFile) \<Rightarrow>
             if mtd_scan w \<le> 0 then (Die ''error scanning partitions'', w)
             else
               (case mtd_parts w partitionName of
                  None \<Rightarrow> (Die ''can't find partition'', w)
                | Some ptn \<Rightarrow>
                    (case fs_files w imageFile of
                       None \<Rightarrow> (Die ''error opening image'', w)
                     | Some img \<Rightarrow>
                         (let r = read_fd (img, 0) HEADER_SIZE; header = fst r; fd = snd r;
                              headerlen = int (length header) in
                          if headerlen \<le> 0 then (Die ''error reading header'', w)
                          else if header_same ptn header
                          then (Return 0, unlink_image deleteImage imageFile w)
                          else
                            (case flash_body ptn fd (nat headerlen) of
                               (Some e, p1, fd1) \<Rightarrow> (e, store_partition partitionName p1 w)
                             | (None, p1, fd1) \<Rightarrow>
                                 (case flash_header p1 fd1 header of
                                    (Some e, p2) \<Rightarrow> (e, store_partition partitionName p2 w)
                                  | (None, p2) \<Rightarrow>
                                      (Return 0,
                                       unlink_image deleteImage imageFile
                                         (store_partition partitionName p2 w)))))))))"

section \<open>recovery.c\<close>

subsection \<open>C strings and the C library\<close>

definition LF :: char where
  "LF = CHR 0x0A"

definition CR :: char where
  "CR = CHR 0x0D"

text \<open>The string a \<open>char\<close> buffer holds: its bytes up to the first \<open>NUL\<close>.\<close>

definition cstr :: "bytes \<Rightarrow> string" where
  "cstr buf = takeWhile (\<lambda>c. c \<noteq> NUL) buf"

text \<open>
  \<open>strlcpy(dst, src, size)\<close>: copy at most \<open>size - 1\<close> characters of the string
  \<open>src\<close> to the start of \<open>dst\<close> and terminate them; nothing is written when \<open>size\<close> is 0.
\<close>

definition strlcpy :: "bytes \<Rightarrow> bytes \<Rightarrow> nat \<Rightarrow> bytes" where
  "strlcpy dst src sz =
     (if sz = 0 then dst
      else overwrite 0 (take (sz - 1) (cstr src) @ [NUL]) dst)"

text \<open>
  \<open>strlcat(dst, src, size)\<close>: append to the string in \<open>dst\<close> as much of the string \<open>src\<close>
  as leaves room for the terminator within \<open>size\<close> bytes; nothing is written when
  \<open>dst\<close> has no terminator in its first \<open>size\<close> bytes.
\<close>

definition strlcat :: "bytes \<Rightarrow> bytes \<Rightarrow> nat \<Rightarrow> bytes" where
  "strlcat dst src sz =
     (let dlen = length (cstr (take sz dst)) in
      if dlen \<ge> sz then dst
      else overwrite dlen (take (sz - dlen - 1) (cstr src) @ [NUL]) dst)"

text \<open>
  \<open>strtok\<close> on the string that is left to scan: skip the delimiters in front; if
  nothing is left the result is \<open>NULL\<close> (\<open>None\<close>); else the token runs to the next
  delimiter, and the scan resumes behind that delimiter. In C the delimiter behind
  the token is overwritten with \<open>NUL\<close> in the buffer that is scanned; the buffers
  scanned here are \<open>buf\<close>, which is read again before its next use, and
  \<open>boot.recovery\<close>, whose string is written anew (lines 211--216) before it is used
  again, so the buffer is not returned.
\<close>

definition strtok :: "string \<Rightarrow> char list \<Rightarrow> (string \<times> string) option" where
  "strtok s delim =
     (let s1 = dropWhile (\<lambda>c. c \<in> set delim) s in
      if s1 = [] then None
      else Some (takeWhile (\<lambda>c. c \<notin> set delim) s1,
                 drop 1 (dropWhile (\<lambda>c. c \<notin> set delim) s1)))"

text \<open>
  \<open>fgets(buf, size, fp)\<close> on the bytes that are left in the stream: \<open>NULL\<close> at end of
  file; else the bytes up to and including the next line feed, but at most \<open>size - 1\<close>
  of them, and the stream behind them.
\<close>

definition fgets :: "nat \<Rightarrow> bytes \<Rightarrow> (bytes \<times> bytes) option" where
  "fgets sz fp =
     (if fp = [] then None
      else
        (let k = min (sz - 1) (Suc (length (takeWhile (\<lambda>c. c \<noteq> LF) fp)))
         in Some (take k fp, drop k fp)))"

text \<open>\<open>atoi\<close>: white space, an optional sign, decimal digits.\<close>

definition is_space :: "char \<Rightarrow> bool" where
  "is_space c = (c \<in> set [CHR 0x20, CHR 0x09, CHR 0x0A, CHR 0x0B, CHR 0x0C, CHR 0x0D])"

definition is_digit :: "char \<Rightarrow> bool" where
  "is_digit c = (48 \<le> (of_char c :: nat) \<and> (of_char c :: nat) \<le> 57)"

definition digits_value :: "string \<Rightarrow> int" where
  "digits_value ds = foldl (\<lambda>n c. 10 * n + (int (of_char c) - 48)) 0 ds"

definition atoi :: "string \<Rightarrow> int" where
  "atoi s =
     (let s1 = dropWhile is_space s in
      case s1 of
        [] \<Rightarrow> 0
      | c # cs \<Rightarrow>
          if c = CHR ''-'' then - digits_value (takeWhile is_digit cs)
          else if c = CHR ''+'' then digits_value (takeWhile is_digit cs)
          else digits_value (takeWhile is_digit s1))"

subsection \<open>The environment of the recovery tool\<close>

definition COMMAND_FILE :: string where
  "COMMAND_FILE = ''CACHE:recovery/command''"

definition INTENT_FILE :: string where
  "INTENT_FILE = ''CACHE:recovery/intent''"

definition LOG_FILE :: string where
  "LOG_FILE = ''CACHE:recovery/log''"

definition TEMPORARY_LOG_FILE :: string where
  "TEMPORARY_LOG_FILE = ''/tmp/recovery.log''"

definition MAX_ARG_LENGTH :: nat where
  "MAX_ARG_LENGTH = 4096"

definition MAX_ARGS :: nat where
  "MAX_ARGS = 100"

text \<open>
  Modelled from the spec: \<open>bootloader.h\<close> (\<open>struct bootloader_message\<close>) is not among
  the sources. The spec gives the control block three fields of fixed capacity,
  \<open>command\<close> and \<open>status\<close> short and \<open>recovery\<close> larger. A field is the bytes of its
  array; the three capacities (\<open>sizeof\<close> of each field) are parameters of everything
  that uses them.
\<close>

record bootloader_message =
  command :: bytes
  status :: bytes
  recovery :: bytes

record bcb_layout =
  sizeof_command :: nat
  sizeof_status :: nat
  sizeof_recovery :: nat

text \<open>\<open>memset(&boot, 0, sizeof(boot))\<close>.\<close>

definition zero_message :: "bcb_layout \<Rightarrow> bootloader_message" where
  "zero_message L =
     \<lparr>command = replicate (sizeof_command L) NUL,
      status = replicate (sizeof_status L) NUL,
      recovery = replicate (sizeof_recovery L) NUL\<rparr>"

text \<open>
  What the tool runs in. The control block on its device, and whether the device can
  be read and written; for each root path whether its root can be mounted and
  whether it translates to a path; for each path whether the file system that holds
  it refuses changes; the files (a file under a root is named by its root path);
  whether \<open>stderr\<close> is open on \<open>/tmp/recovery.log\<close>, as \<open>main\<close> reopens it (lines
  1449--1450); the static \<open>tmplog_offset\<close> of \<open>finish_recovery\<close>; the lines the
  logging macros have printed; what the install and format collaborators answer, and
  the calls made to them.
\<close>

datatype collaborator_call = Install string | Format string

record recovery_env =
  bcb :: bootloader_message
  bcb_read_ok :: bool
  bcb_write_ok :: bool
  root_mounts :: "string \<Rightarrow> bool"
  root_translates :: "string \<Rightarrow> bool"
  fs_read_only :: "string \<Rightarrow> bool"
  files :: "string \<rightharpoonup> bytes"
  stderr_on_tmplog :: bool
  tmplog_offset :: nat
  printed :: "string list"
  install_result :: "string \<Rightarrow> int"
  format_result :: "string \<Rightarrow> int"
  calls :: "collaborator_call list"

text \<open>
  Modelled from the spec: \<open>common.h\<close> (the macros \<open>LOGE\<close>, \<open>LOGW\<close>, \<open>LOGI\<close>) is not
  among the sources. Each prints one line on \<open>stderr\<close>, after \<open>E:\<close>, \<open>W:\<close> or \<open>I:\<close>; the
  spec calls what \<open>stderr\<close> is written to the transient log of the session. The lines
  are collected in the order they are printed. Where \<open>stderr\<close> is open on
  \<open>/tmp/recovery.log\<close> (the stream is unbuffered and appends, lines 1449--1450),
  that file is still there and its file system accepts changes, the line and its
  line feed are appended to the file at once; elsewhere the line does not reach the
  file. The messages \<open>Boot command\<close>, \<open>Boot status\<close> and \<open>Bad boot message\<close> of
  \<open>get_args\<close> are kept without the field contents that their formats print after
  them.
\<close>

definition print_line :: "string \<Rightarrow> recovery_env \<Rightarrow> recovery_env" where
  "print_line l env =
     env\<lparr>files :=
           (if stderr_on_tmplog env \<and> \<not> fs_read_only env TEMPORARY_LOG_FILE then
              (case files env TEMPORARY_LOG_FILE of
                 None \<Rightarrow> files env
               | Some c \<Rightarrow> (files env)(TEMPORARY_LOG_FILE \<mapsto> c @ l @ [LF]))
            else files env),
         printed := printed env @ [l]\<rparr>"

definition LOGE :: "string \<Rightarrow> recovery_env \<Rightarrow> recovery_env" where
  "LOGE msg env = print_line (''E:'' @ msg) env"

definition LOGW :: "string \<Rightarrow> recovery_env \<Rightarrow> recovery_env" where
  "LOGW msg env = print_line (''W:'' @ msg) env"

definition LOGI :: "string \<Rightarrow> recovery_env \<Rightarrow> recovery_env" where
  "LOGI msg env = print_line (''I:'' @ msg) env"

text \<open>
  Modelled from the spec: \<open>bootloader.c\<close> (\<open>get_bootloader_message\<close>,
  \<open>set_bootloader_message\<close>) is not among the sources. The spec: \<open>get\<close> is a best-effort
  read of the whole record, on an I/O error it logs a warning and fails; \<open>set\<close>
  overwrites the entire record in one operation. Both return 0 on success and \<open>-1\<close> on
  failure; \<open>get\<close> leaves the caller's record untouched when it fails.
\<close>

definition get_bootloader_message ::
    "recovery_env \<Rightarrow> bootloader_message \<Rightarrow> int \<times> bootloader_message \<times> recovery_env" where
  "get_bootloader_message env boot =
     (if bcb_read_ok env then (0, bcb env, env)
      else (-1, boot, LOGW ''Can't read the bootloader message'' env))"

definition set_bootloader_message :: "recovery_env \<Rightarrow> bootloader_message \<Rightarrow> int \<times> recovery_env" where
  "set_bootloader_message env boot =
     (if bcb_write_ok env then (0, env\<lparr>bcb := boot\<rparr>)
      else (-1, LOGE ''Can't write the bootloader message'' env))"

text \<open>
  Modelled from the spec: \<open>roots.c\<close> (\<open>ensure_root_path_mounted\<close>,
  \<open>translate_root_path\<close>, \<open>format_root_device\<close>) and \<open>install.c\<close> (\<open>install_package\<close>,
  \<open>INSTALL_SUCCESS\<close>, \<open>INSTALL_ERROR\<close>) are not among the sources. The spec: mount or
  translate a logical storage root to a physical path; format or erase a root;
  install a package from a path, with a result that is success or not. What each
  answers is given by the environment; a translated path is named by its root path.
\<close>

definition ensure_root_path_mounted :: "recovery_env \<Rightarrow> string \<Rightarrow> int" where
  "ensure_root_path_mounted env root_path = (if root_mounts env root_path then 0 else -1)"

definition translate_root_path :: "recovery_env \<Rightarrow> string \<Rightarrow> string option" where
  "translate_root_path env root_path =
     (if root_translates env root_path then Some root_path else None)"

definition format_root_device :: "recovery_env \<Rightarrow> string \<Rightarrow> int \<times> recovery_env" where
  "format_root_device env root =
     (format_result env root, env\<lparr>calls := calls env @ [Format root]\<rparr>)"

definition install_package :: "recovery_env \<Rightarrow> string \<Rightarrow> int \<times> recovery_env" where
  "install_package env root_path =
     (install_result env root_path, env\<lparr>calls := calls env @ [Install root_path]\<rparr>)"

definition INSTALL_SUCCESS :: int where
  "INSTALL_SUCCESS = 0"

definition INSTALL_ERROR :: int where
  "INSTALL_ERROR = 1"

text \<open>
  \<open>fopen(path, mode)\<close>: reading needs the file; writing and appending need a file
  system that accepts changes, create the file when it is missing, and writing
  empties it. The stream is named by the path.
\<close>

definition fopen :: "recovery_env \<Rightarrow> string \<Rightarrow> string \<Rightarrow> string option \<times> recovery_env" where
  "fopen env path mode =
     (if mode = ''r'' then (if files env path = None then (None, env) else (Some path, env))
      else if fs_read_only env path then (None, env)
      else if mode = ''w'' then (Some path, env\<lparr>files := (files env)(path \<mapsto> [])\<rparr>)
      else (Some path,
            env\<lparr>files := (files env)(path \<mapsto> (case files env path of None \<Rightarrow> [] | Some c \<Rightarrow> c))\<rparr>))"

text \<open>\<open>fputs(s, fp)\<close> appends the string to the file of the stream.\<close>

definition fputs :: "bytes \<Rightarrow> string \<Rightarrow> recovery_env \<Rightarrow> recovery_env" where
  "fputs s fp env =
     env\<lparr>files := (files env)(fp \<mapsto> (case files env fp of None \<Rightarrow> [] | Some c \<Rightarrow> c) @ cstr s)\<rparr>"

text \<open>
  \<open>unlink(path)\<close>: 0 when the file is removed; \<open>-1\<close> with \<open>errno\<close> \<open>EROFS\<close> when the
  file system refuses changes, whether the file is there or not (the mount is
  checked before the name is looked up), and with \<open>ENOENT\<close> when the file system
  accepts changes and there is no such file.
\<close>

datatype errno = ENOENT | EROFS

definition unlink :: "recovery_env \<Rightarrow> string \<Rightarrow> int \<times> errno option \<times> recovery_env" where
  "unlink env path =
     (if fs_read_only env path then (-1, Some EROFS, env)
      else if files env path = None then (-1, Some ENOENT, env)
      else (0, None, env\<lparr>files := (files env)(path := None)\<rparr>))"

subsection \<open>The functions of recovery.c\<close>

text \<open>
  \<open>fopen_root_path\<close> (lines 125--144). Creating the directory of a file that is
  written (line 140) has no effect on the files of this model.
\<close>

definition fopen_root_path :: "recovery_env \<Rightarrow> string \<Rightarrow> string \<Rightarrow> string option \<times> recovery_env" where
  "fopen_root_path env root_path mode =
     (if ensure_root_path_mounted env root_path \<noteq> 0
      then (None, LOGE (''Can't mount '' @ root_path) env)
      else
        (case translate_root_path env root_path of
           None \<Rightarrow> (None, LOGE (''Bad path '' @ root_path) env)
         | Some path \<Rightarrow> fopen env path mode))"

text \<open>
  \<open>check_and_fclose\<close> (lines 147--152): the streams of this model have no error
  indicator to report.
\<close>

definition check_and_fclose :: "string \<Rightarrow> string \<Rightarrow> recovery_env \<Rightarrow> recovery_env" where
  "check_and_fclose fp name env = env"

text \<open>
  How \<open>get_args\<close> can end other than by returning: by passing the \<open>NULL\<close> that
  \<open>strtok\<close> returned to \<open>strdup\<close>.
\<close>

datatype crash = NullDereference

text \<open>
  The loop of lines 179--182 over the rest of \<open>boot.recovery\<close>, from \<open>*argc\<close> on:
  the arguments it stores.
\<close>

function boot_message_args :: "nat \<Rightarrow> string \<Rightarrow> string list" where
  "boot_message_args argc s =
     (if argc < MAX_ARGS then
        (case strtok s [LF] of
           None \<Rightarrow> []
         | Some (arg, s') \<Rightarrow> arg # boot_message_args (Suc argc) s')
      else [])"
  by pat_completeness auto
termination
  by (relation "measure (\<lambda>(argc, s). MAX_ARGS - argc)") auto

text \<open>
  The loop of lines 198--201 over the command file, from \<open>*argc\<close> on: the arguments
  it stores, or the crash in \<open>strdup\<close>.
\<close>

function command_file_args :: "nat \<Rightarrow> bytes \<Rightarrow> crash + string list" where
  "command_file_args argc fp =
     (if argc < MAX_ARGS then
        (case fgets MAX_ARG_LENGTH fp of
           None \<Rightarrow> Inr []
         | Some (buf, fp') \<Rightarrow>
             (case strtok (cstr buf) [CR, LF] of
                None \<Rightarrow> Inl NullDereference
              | Some (arg, rest) \<Rightarrow>
                  (case command_file_args (Suc argc) fp' of
                     Inl e \<Rightarrow> Inl e
                   | Inr args \<Rightarrow> Inr (arg # args))))
      else Inr [])"
  by pat_completeness auto
termination
  by (relation "measure (\<lambda>(argc, fp). MAX_ARGS - argc)") auto

text \<open>
  The first byte of a field is neither 0 nor 255 (lines 164, 168, 184).
\<close>

definition field_set :: "bytes \<Rightarrow> bool" where
  "field_set f = (case f of [] \<Rightarrow> False | c # cs \<Rightarrow> c \<noteq> NUL \<and> c \<noteq> CHR 0xFF)"

text \<open>
  Lines 173--187: with no arguments on the command line, take them from the
  \<open>recovery\<close> field when its first line is \<open>recovery\<close>.
\<close>

definition args_from_boot_message ::
    "bcb_layout \<Rightarrow> bootloader_message \<Rightarrow> recovery_env \<Rightarrow> string list \<Rightarrow> string list \<times> recovery_env" where
  "args_from_boot_message L boot env argv =
     (if length argv \<le> 1 then
        (let r = (recovery boot)[sizeof_recovery L - 1 := NUL] in
         case strtok (cstr r) [LF] of
           Some (arg, s') \<Rightarrow>
             if arg = ''recovery''
             then (arg # boot_message_args 1 s', LOGI ''Got arguments from boot message'' env)
             else if field_set r then (argv, LOGE ''Bad boot message'' env)
             else (argv, env)
         | None \<Rightarrow>
             if field_set r then (argv, LOGE ''Bad boot message'' env)
             else (argv, env))
      else (argv, env))"

text \<open>
  Lines 190--206: if there still are none, take them from the command file. With an
  empty argument vector, \<open>argv[0]\<close> is its terminating \<open>NULL\<close>, written here as the empty
  string; \<open>get_args\<close> does not read it again.
\<close>

definition args_from_command_file ::
    "recovery_env \<Rightarrow> string list \<Rightarrow> crash + string list \<times> recovery_env" where
  "args_from_command_file env argv =
     (if length argv \<le> 1 then
        (case fopen_root_path env COMMAND_FILE ''r'' of
           (None, env1) \<Rightarrow> Inr (argv, env1)
         | (Some fp, env1) \<Rightarrow>
             (let argv0 = (case argv of [] \<Rightarrow> [] | a # as \<Rightarrow> a) in
              case command_file_args 1 (case files env1 fp of None \<Rightarrow> [] | Some c \<Rightarrow> c) of
                Inl e \<Rightarrow> Inl e
              | Inr args \<Rightarrow>
                  Inr (argv0 # args,
                       LOGI (''Got arguments from '' @ COMMAND_FILE)
                         (check_and_fclose fp COMMAND_FILE env1))))
      else Inr (argv, env))"

text \<open>
  Lines 210--216: the record that is written back, from the record that was read
  and \<open>argv[1..argc-1]\<close>.
\<close>

definition boot_message_for :: "bcb_layout \<Rightarrow> bootloader_message \<Rightarrow> string list \<Rightarrow> bootloader_message" where
  "boot_message_for L boot argv =
     boot\<lparr>command := strlcpy (command boot) ''boot-recovery'' (sizeof_command L),
          recovery :=
            foldl (\<lambda>r a. strlcat (strlcat r a (sizeof_recovery L)) [LF] (sizeof_recovery L))
              (strlcpy (recovery boot) (''recovery'' @ [LF]) (sizeof_recovery L))
              (tl argv)\<rparr>"

text \<open>
  \<open>get_args\<close> (lines 158--218). The argument vector in; the argument vector and the
  environment out, or the crash.
\<close>

definition get_args :: "bcb_layout \<Rightarrow> recovery_env \<Rightarrow> string list \<Rightarrow> crash + string list \<times> recovery_env" where
  "get_args L env argv =
     (case get_bootloader_message env (zero_message L) of
        (rc, boot, env1) \<Rightarrow>
          (let env2 = (if field_set (command boot) then LOGI ''Boot command'' env1 else env1);
               env3 = (if field_set (status boot) then LOGI ''Boot status'' env2 else env2)
           in case args_from_boot_message L boot env3 argv of
                (argv1, env4) \<Rightarrow>
                  (let boot1 = (if length argv \<le> 1
                                then boot\<lparr>recovery := (recovery boot)[sizeof_recovery L - 1 := NUL]\<rparr>
                                else boot)
                   in case args_from_command_file env4 argv1 of
                        Inl e \<Rightarrow> Inl e
                      | Inr (argv2, env5) \<Rightarrow>
                          Inr (argv2, snd (set_bootloader_message env5 (boot_message_for L boot1 argv2))))))"

text \<open>
  The copy loop of line 251: \<open>while (fgets(buf, sizeof(buf), tmplog)) fputs(buf, log)\<close>,
  on the bytes left in the temporary log; the bytes left at the end come back with
  the environment.
\<close>

function copy_log :: "bytes \<Rightarrow> string \<Rightarrow> recovery_env \<Rightarrow> bytes \<times> recovery_env" where
  "copy_log tmplog lg env =
     (case fgets 4096 tmplog of
        None \<Rightarrow> (tmplog, env)
      | Some (buf, tmplog') \<Rightarrow> copy_log tmplog' lg (fputs buf lg env))"
  by pat_completeness auto
termination
  by (relation "measure (\<lambda>(tmplog, lg, env). length tmplog)")
     (auto simp: fgets_def Let_def split: if_splits)

text \<open>
  What that loop writes for the bytes left in the temporary log: the string of each
  piece that \<open>fgets\<close> reads.
\<close>

function copied_text :: "bytes \<Rightarrow> bytes" where
  "copied_text tmplog =
     (case fgets 4096 tmplog of
        None \<Rightarrow> []
      | Some (buf, tmplog') \<Rightarrow> cstr buf @ copied_text tmplog')"
  by pat_completeness auto
termination
  by (relation "measure length") (auto simp: fgets_def Let_def split: if_splits)

text \<open>
  \<open>finish_recovery\<close>, lines 229--237: write the intent, if there is one.
\<close>

definition finish_intent :: "recovery_env \<Rightarrow> string option \<Rightarrow> recovery_env" where
  "finish_intent env intent =
     (case intent of
        None \<Rightarrow> env
      | Some s \<Rightarrow>
          (case fopen_root_path env INTENT_FILE ''w'' of
             (None, e) \<Rightarrow> LOGE (''Can't open '' @ INTENT_FILE) e
           | (Some fp, e) \<Rightarrow> check_and_fclose fp INTENT_FILE (fputs s fp e)))"

text \<open>
  \<open>finish_recovery\<close>, lines 240--256: append what the temporary log holds from
  \<open>tmplog_offset\<close> on to the log file, and move \<open>tmplog_offset\<close> to where the
  reading stopped.
\<close>

definition finish_logs :: "recovery_env \<Rightarrow> recovery_env" where
  "finish_logs env =
     (case fopen_root_path env LOG_FILE ''a'' of
        (None, e) \<Rightarrow> LOGE (''Can't open '' @ LOG_FILE) e
      | (Some lg, e) \<Rightarrow>
          check_and_fclose lg LOG_FILE
            (case fopen e TEMPORARY_LOG_FILE ''r'' of
               (None, e1) \<Rightarrow> LOGE (''Can't open '' @ TEMPORARY_LOG_FILE) e1
             | (Some tmplog, e1) \<Rightarrow>
                 (let content = (case files e1 tmplog of None \<Rightarrow> [] | Some c \<Rightarrow> c);
                      stream = drop (tmplog_offset e1) content
                  in case copy_log stream lg e1 of
                       (left, e2) \<Rightarrow>
                         check_and_fclose tmplog TEMPORARY_LOG_FILE
                           (e2\<lparr>tmplog_offset :=
                                 tmplog_offset e1 + (length stream - length left)\<rparr>))))"

text \<open>
  \<open>finish_recovery\<close>, lines 264--269: remove the command file; a warning unless it
  is removed or was not there.
\<close>

definition finish_unlink :: "recovery_env \<Rightarrow> recovery_env" where
  "finish_unlink env =
     (if ensure_root_path_mounted env COMMAND_FILE \<noteq> 0
      then LOGW (''Can't unlink '' @ COMMAND_FILE) env
      else
        (case translate_root_path env COMMAND_FILE of
           None \<Rightarrow> LOGW (''Can't unlink '' @ COMMAND_FILE) env
         | Some path \<Rightarrow>
             (case unlink env path of
                (rc, err, e) \<Rightarrow>
                  if rc \<noteq> 0 \<and> err \<noteq> Some ENOENT
                  then LOGW (''Can't unlink '' @ COMMAND_FILE) e
                  else e)))"

text \<open>
  \<open>finish_recovery\<close> (lines 225--272): the intent, the logs, the control block reset
  to an all-zero record (lines 259--261), the command file.
\<close>

definition finish_recovery :: "bcb_layout \<Rightarrow> recovery_env \<Rightarrow> string option \<Rightarrow> recovery_env" where
  "finish_recovery L env intent =
     finish_unlink
       (snd (set_bootloader_message (finish_logs (finish_intent env intent)) (zero_message L)))"


text \<open>\<open>erase_root\<close> (lines 291--298).\<close>

definition erase_root :: "recovery_env \<Rightarrow> string \<Rightarrow> int \<times> recovery_env" where
  "erase_root env root = format_root_device env root"

text \<open>
  The options of \<open>main\<close> (lines 1465--1468), and the \<open>switch\<close> of lines 1472--1481 on
  what \<open>getopt_long\<close> returned and its \<open>optarg\<close>.
\<close>

record options =
  previous_runs :: int
  send_intent :: "string option"
  update_package :: "string option"
  wipe_data :: int
  wipe_cache :: int

definition no_options :: options where
  "no_options = \<lparr>previous_runs = 0, send_intent = None, update_package = None,
                  wipe_data = 0, wipe_cache = 0\<rparr>"

definition main_option :: "options \<times> recovery_env \<Rightarrow> char \<times> string \<Rightarrow> options \<times> recovery_env" where
  "main_option s opt =
     (let opts = fst s; env = snd s; arg = fst opt; optarg = snd opt in
      if arg = CHR ''p'' then (opts\<lparr>previous_runs := atoi optarg\<rparr>, env)
      else if arg = CHR ''s'' then (opts\<lparr>send_intent := Some optarg\<rparr>, env)
      else if arg = CHR ''u'' then (opts\<lparr>update_package := Some optarg\<rparr>, env)
      else if arg = CHR ''w'' then (opts\<lparr>wipe_data := 1, wipe_cache := 1\<rparr>, env)
      else if arg = CHR ''c'' then (opts\<lparr>wipe_cache := 1\<rparr>, env)
      else if arg = CHR ''?'' then (opts, LOGE ''Invalid command argument'' env)
      else (opts, env))"

text \<open>
  The \<open>while\<close> loop of lines 1471--1482 over the values \<open>getopt_long\<close> returns, in order.
\<close>

definition main_options :: "recovery_env \<Rightarrow> (char \<times> string) list \<Rightarrow> options \<times> recovery_env" where
  "main_options env returned = foldl main_option (no_options, env) returned"

text \<open>
  Lines 1502--1513 of \<open>main\<close>: run what the options ask for; the status and the
  environment afterwards.
\<close>

definition main_action :: "recovery_env \<Rightarrow> options \<Rightarrow> int \<times> recovery_env" where
  "main_action env opts =
     (case update_package opts of
        Some pkg \<Rightarrow> install_package env pkg
      | None \<Rightarrow>
          if wipe_data opts \<noteq> 0 \<or> wipe_cache opts \<noteq> 0 then
            (let st0 = INSTALL_SUCCESS;
                 r1 = (if wipe_data opts \<noteq> 0
                       then (case erase_root env ''DATA:'' of
                               (rc, e) \<Rightarrow> (if rc \<noteq> 0 then INSTALL_ERROR else st0, e))
                       else (st0, env));
                 r2 = (if wipe_cache opts \<noteq> 0
                       then (case erase_root (snd r1) ''CACHE:'' of
                               (rc, e) \<Rightarrow> (if rc \<noteq> 0 then INSTALL_ERROR else fst r1, e))
                       else r1)
             in r2)
          else (INSTALL_ERROR, env))"

subsection \<open>Notions for stating what the functions do\<close>

text \<open>
  A file under a root can be changed: opened for writing or appending, or removed.
  The lines that are printed when it cannot be opened.
\<close>

definition opens_for_change :: "recovery_env \<Rightarrow> string \<Rightarrow> bool" where
  "opens_for_change env root_path =
     (root_mounts env root_path \<and> root_translates env root_path \<and> \<not> fs_read_only env root_path)"

definition open_errors :: "recovery_env \<Rightarrow> string \<Rightarrow> string list" where
  "open_errors env root_path =
     (if \<not> root_mounts env root_path then [''E:Can't mount '' @ root_path]
      else if \<not> root_translates env root_path then [''E:Bad path '' @ root_path]
      else [])
     @ [''E:Can't open '' @ root_path]"

text \<open>
  Printing several lines, one after the other; the text of the lines; and the text
  that printing them adds to a temporary log that is there.
\<close>

definition print_lines :: "string list \<Rightarrow> recovery_env \<Rightarrow> recovery_env" where
  "print_lines ls env = foldl (\<lambda>e l. print_line l e) env ls"

definition log_text :: "string list \<Rightarrow> bytes" where
  "log_text ls = concat (map (\<lambda>l. l @ [LF]) ls)"

definition logged :: "recovery_env \<Rightarrow> string list \<Rightarrow> bytes" where
  "logged env ls =
     (if stderr_on_tmplog env \<and> \<not> fs_read_only env TEMPORARY_LOG_FILE then log_text ls else [])"

text \<open>
  The lines that the four steps of \<open>finish_recovery\<close> print: for the intent, for the
  logs, for the control block and for the command file.
\<close>

definition intent_errors :: "recovery_env \<Rightarrow> string option \<Rightarrow> string list" where
  "intent_errors env intent =
     (case intent of
        None \<Rightarrow> []
      | Some s \<Rightarrow> if opens_for_change env INTENT_FILE then [] else open_errors env INTENT_FILE)"

definition log_errors :: "recovery_env \<Rightarrow> string list" where
  "log_errors env =
     (if opens_for_change env LOG_FILE
      then (case files env TEMPORARY_LOG_FILE of
              None \<Rightarrow> [''E:Can't open '' @ TEMPORARY_LOG_FILE]
            | Some c \<Rightarrow> [])
      else open_errors env LOG_FILE)"

definition bcb_errors :: "recovery_env \<Rightarrow> string list" where
  "bcb_errors env = (if bcb_write_ok env then [] else [''E:Can't write the bootloader message''])"

definition unlink_errors :: "recovery_env \<Rightarrow> string list" where
  "unlink_errors env =
     (if opens_for_change env COMMAND_FILE then [] else [''W:Can't unlink '' @ COMMAND_FILE])"

definition finish_errors :: "recovery_env \<Rightarrow> string option \<Rightarrow> string list" where
  "finish_errors env intent =
     intent_errors env intent @ log_errors env @ bcb_errors env @ unlink_errors env"

text \<open>
  A command file with one argument on each line, and an argument that a line of the
  command file gives back as it is: not empty, short enough for \<open>buf\<close> to hold it
  with its line feed and the terminator, and free of \<open>NUL\<close>, carriage return and line
  feed.
\<close>

definition command_lines :: "string list \<Rightarrow> bytes" where
  "command_lines args = concat (map (\<lambda>a. a @ [LF]) args)"

definition plain_argument :: "string \<Rightarrow> bool" where
  "plain_argument a =
     (a \<noteq> [] \<and> length a + 2 \<le> MAX_ARG_LENGTH \<and> NUL \<notin> set a \<and> CR \<notin> set a \<and> LF \<notin> set a)"

subsection \<open>Environments for the examples\<close>

text \<open>
  Field widths of 32, 32 and 1024 bytes; a control block that is all zero on a device
  that works, roots that mount, file systems that accept changes, no files, \<open>stderr\<close>
  not on the temporary log, and collaborators that succeed.
\<close>

definition example_layout :: bcb_layout where
  "example_layout = \<lparr>sizeof_command = 32, sizeof_status = 32, sizeof_recovery = 1024\<rparr>"

definition example_env :: recovery_env where
  "example_env =
     \<lparr>bcb = zero_message example_layout, bcb_read_ok = True, bcb_write_ok = True,
      root_mounts = (\<lambda>root_path. True), root_translates = (\<lambda>root_path. True),
      fs_read_only = (\<lambda>path. False), files = Map.empty, stderr_on_tmplog = False,
      tmplog_offset = 0, printed = [],
      install_result = (\<lambda>root_path. 0), format_result = (\<lambda>root. 0), calls = []\<rparr>"

text \<open>
  A session under way: the control block asks for a data wipe, the command file asks
  for an update package, and \<open>stderr\<close> is on the temporary log, which holds one line.
\<close>

definition example_request :: bootloader_message where
  "example_request =
     \<lparr>command = ''boot-recovery'' @ replicate 19 NUL,
      status = replicate 32 NUL,
      recovery = ''recovery'' @ [LF] @ ''--wipe_data'' @ [LF] @ replicate 1003 NUL\<rparr>"

definition session_env :: recovery_env where
  "session_env =
     example_env
       \<lparr>bcb := example_request,
        files := [TEMPORARY_LOG_FILE \<mapsto> ''Starting recovery'' @ [LF],
                  COMMAND_FILE \<mapsto> ''--update_package=CACHE:update.zip'' @ [LF]],
        stderr_on_tmplog := True\<rparr>"

section \<open>Properties of the flashing tool\<close>

subsection \<open>Overwriting a range of a partition\<close>

lemma length_overwrite:
  "pos + length bs \<le> length d \<Longrightarrow> length (overwrite pos bs d) = length d"
  by (simp add: overwrite_def)

lemma overwrite_Nil: "overwrite pos [] d = d"
  by (simp add: overwrite_def)

lemma overwrite_overwrite:
  "pos + length a + length b \<le> length d \<Longrightarrow>
   overwrite (pos + length a) b (overwrite pos a d) = overwrite pos (a @ b) d"
proof -
  assume h: "pos + length a + length b \<le> length d"
  then have 1: "pos \<le> length d" and 2: "pos + length a \<le> length d" by arith+
  have 3: "min (length d) pos = pos" using 1 by simp
  show ?thesis
    using h 1 2 by (simp add: overwrite_def 3 ac_simps)
qed

lemma take_overwrite:
  "n \<le> pos \<Longrightarrow> pos \<le> length d \<Longrightarrow> take n (overwrite pos bs d) = take n d"
  by (simp add: overwrite_def min_def)

lemma overwrite_same:
  "overwrite pos (take n (drop pos d)) d = d"
proof -
  let ?m = "length (take n (drop pos d))"
  have "take n (drop pos d) = take ?m (drop pos d)"
    by (cases "n \<le> length (drop pos d)") (simp_all add: min_def)
  moreover have "drop (pos + ?m) d = drop ?m (drop pos d)" by (simp add: add.commute)
  ultimately have "take n (drop pos d) @ drop (pos + ?m) d = drop pos d"
    by (metis append_take_drop_id)
  then show ?thesis by (simp add: overwrite_def)
qed

lemma mtd_write_data_ok:
  "fst (mtd_write_data p pos buf) = int (length buf) \<longleftrightarrow> pos + length buf \<le> length (p_data p)"
  by (simp add: mtd_write_data_def)

lemma mtd_write_data_result:
  "pos + length buf \<le> length (p_data p) \<Longrightarrow>
   mtd_write_data p pos buf =
     (int (length buf),
      p\<lparr>p_data := overwrite pos buf (p_data p), p_nwrites := Suc (p_nwrites p)\<rparr>,
      pos + length buf)"
  by (simp add: mtd_write_data_def)

declare write_rest.simps [simp del]
declare write_block_rest.simps [simp del]
declare first_block_left.simps [simp del]

lemma take_drop_length_take: "take n xs @ drop (length (take n xs)) xs = xs"
  by (cases "n \<le> length xs") (simp_all add: min_def)

lemma write_rest_ok:
  "write_rest fd p out = (None, fd', p', out') \<Longrightarrow> out \<le> length (p_data p) \<Longrightarrow>
     p_data p' = overwrite out (drop (snd fd) (fst fd)) (p_data p)
   \<and> out' = out + length (drop (snd fd) (fst fd))
   \<and> out' \<le> length (p_data p)
   \<and> fst fd' = fst fd
   \<and> p_erase_size p' = p_erase_size p \<and> p_can_read p' = p_can_read p
   \<and> p_can_write p' = p_can_write p"
proof (induction fd p out rule: write_rest.induct)
  case (1 fd p out)
  let ?rest = "drop (snd fd) (fst fd)"
  let ?buf = "take HEADER_SIZE ?rest"
  show ?case
  proof (cases "length ?buf > 0")
    case False
    then have e: "?rest = []" by (auto simp: HEADER_SIZE_def)
    from "1.prems" False show ?thesis
      by (subst (asm) write_rest.simps) (auto simp: read_fd_def Let_def overwrite_Nil e HEADER_SIZE_def)
  next
    case True
    let ?fd1 = "(fst fd, snd fd + length ?buf)"
    let ?w = "mtd_write_data p out ?buf"
    from "1.prems"(1) True have ok: "fst ?w = int (length ?buf)"
      and rec: "write_rest ?fd1 (fst (snd ?w)) (snd (snd ?w)) = (None, fd', p', out')"
      by (subst (asm) write_rest.simps, simp add: read_fd_def Let_def split: if_splits)+
    from ok have fit: "out + length ?buf \<le> length (p_data p)"
      using mtd_write_data_ok [of p out ?buf] by blast
    note w = mtd_write_data_result [OF fit]
    have rd: "read_fd fd HEADER_SIZE = (?buf, ?fd1)" by (simp add: read_fd_def Let_def)
    have len1: "length (p_data (fst (snd ?w))) = length (p_data p)"
      using fit by (simp add: w length_overwrite)
    have ih: "p_data p' = overwrite (snd (snd ?w)) (drop (snd ?fd1) (fst ?fd1)) (p_data (fst (snd ?w)))
      \<and> out' = snd (snd ?w) + length (drop (snd ?fd1) (fst ?fd1))
      \<and> out' \<le> length (p_data (fst (snd ?w)))
      \<and> fst fd' = fst ?fd1
      \<and> p_erase_size p' = p_erase_size (fst (snd ?w)) \<and> p_can_read p' = p_can_read (fst (snd ?w))
      \<and> p_can_write p' = p_can_write (fst (snd ?w))"
      using "1.IH" [OF refl refl refl refl _ refl] True ok rec fit len1
      by (simp add: rd w)
    let ?rest1 = "drop (snd ?fd1) (fst ?fd1)"
    have r1: "?rest1 = drop (length ?buf) ?rest" by (simp add: add.commute)
    have split: "?buf @ ?rest1 = ?rest" unfolding r1 by (rule take_drop_length_take)
    have lens: "length ?buf + length ?rest1 = length ?rest"
      using arg_cong [OF split, of length] by simp
    from ih have o': "out' = out + length ?buf + length ?rest1" by (simp add: w)
    from ih have bound: "out' \<le> length (p_data p)" by (simp add: len1)
    have "p_data p' = overwrite (out + length ?buf) ?rest1 (overwrite out ?buf (p_data p))"
      using ih by (simp add: w)
    also have "\<dots> = overwrite out (?buf @ ?rest1) (p_data p)"
      using bound o' by (intro overwrite_overwrite) simp
    finally have d: "p_data p' = overwrite out ?rest (p_data p)" by (simp only: split)
    from ih d o' lens bound show ?thesis by (simp add: w)
  qed
qed


lemma take_take_drop: "take a xs @ take b (drop (length (take a xs)) xs) = take (length (take a xs) + b) xs"
proof -
  have "take (length (take a xs)) xs = take a xs"
    by (cases "a \<le> length xs") (simp_all add: min_def)
  then show ?thesis by (simp only: take_add)
qed

lemma write_block_rest_step:
  assumes "0 < left"
    and "n = nat (if left > int HEADER_SIZE then int HEADER_SIZE else left)"
    and "buf = take n (drop (snd fd) (fst fd))"
  shows "write_block_rest left fd p out =
     (if buf = [] then (Some ''error reading'', (fst fd, snd fd + length buf), p, out)
      else if \<not> out + length buf \<le> length (p_data p)
           then (Some ''error writing'', (fst fd, snd fd + length buf), p, out)
      else write_block_rest (left - int (length buf)) (fst fd, snd fd + length buf)
             (p\<lparr>p_data := overwrite out buf (p_data p), p_nwrites := Suc (p_nwrites p)\<rparr>)
             (out + length buf))"
  unfolding assms(2,3)
  by (subst write_block_rest.simps)
     (simp add: assms(1) read_fd_def Let_def mtd_write_data_def del: length_take)

lemma write_block_rest_ok:
  "write_block_rest left fd p out = (None, fd', p', out') \<Longrightarrow> out \<le> length (p_data p) \<Longrightarrow>
     nat left \<le> length (drop (snd fd) (fst fd))
   \<and> p_data p' = overwrite out (take (nat left) (drop (snd fd) (fst fd))) (p_data p)
   \<and> out' = out + nat left
   \<and> out' \<le> length (p_data p)
   \<and> p_erase_size p' = p_erase_size p \<and> p_can_read p' = p_can_read p
   \<and> p_can_write p' = p_can_write p"
proof (induction left fd p out rule: write_block_rest.induct)
  case (1 left fd p out)
  let ?rest = "drop (snd fd) (fst fd)"
  show ?case
  proof (cases "left > 0")
    case False
    with "1.prems" show ?thesis
      by (subst (asm) write_block_rest.simps) (auto simp: overwrite_Nil)
  next
    case True
    define n where "n = nat (if left > int HEADER_SIZE then int HEADER_SIZE else left)"
    define buf where "buf = take n ?rest"
    define fd1 where "fd1 = (fst fd, snd fd + length buf)"
    define p1 where "p1 = p\<lparr>p_data := overwrite out buf (p_data p), p_nwrites := Suc (p_nwrites p)\<rparr>"
    define left1 where "left1 = left - int (length buf)"
    note step = write_block_rest_step [OF True n_def buf_def, of p out,
        folded fd1_def p1_def left1_def]
    from "1.prems"(1) have ne: "buf \<noteq> []" and fit: "out + length buf \<le> length (p_data p)"
      and rec: "write_block_rest left1 fd1 p1 (out + length buf) = (None, fd', p', out')"
      unfolding step by (simp_all split: if_splits)
    have n_le: "int n \<le> left" using True by (simp add: n_def)
    have "length buf \<le> n" by (simp add: buf_def)
    with n_le have le: "int (length buf) \<le> left" by linarith
    have sum: "length buf + nat left1 = nat left" using le by (simp add: left1_def)
    have len1: "length (p_data p1) = length (p_data p)"
      using fit by (simp add: p1_def length_overwrite)
    have rd: "read_fd fd n = (buf, fd1)" by (simp add: read_fd_def Let_def buf_def fd1_def)
    have wr: "mtd_write_data p out buf = (int (length buf), p1, out + length buf)"
      using fit by (simp add: mtd_write_data_def p1_def)
    have ne': "\<not> int (length (fst (read_fd fd n))) \<le> 0" using ne by (simp add: rd)
    let ?rest1 = "drop (snd fd1) (fst fd1)"
    have ih: "nat left1 \<le> length ?rest1
      \<and> p_data p' = overwrite (out + length buf) (take (nat left1) ?rest1) (p_data p1)
      \<and> out' = out + length buf + nat left1
      \<and> out' \<le> length (p_data p1)
      \<and> p_erase_size p' = p_erase_size p1 \<and> p_can_read p' = p_can_read p1
      \<and> p_can_write p' = p_can_write p1"
      using "1.IH" [OF True refl refl refl _ refl, folded n_def, unfolded rd fst_conv snd_conv wr,
          folded left1_def] ne rec fit len1
      by simp
    have r1: "?rest1 = drop (length buf) ?rest" by (simp add: fd1_def add.commute)
    have cat: "buf @ take (nat left1) ?rest1 = take (nat left) ?rest"
      unfolding r1 buf_def using take_take_drop [of n ?rest "nat left1"] sum
      by (simp only: buf_def)
    have lcat: "length (take (nat left1) ?rest1) = nat left1" using ih by simp
    from ih have bound: "out' \<le> length (p_data p)" by (simp add: len1)
    have "p_data p' = overwrite (out + length buf) (take (nat left1) ?rest1) (overwrite out buf (p_data p))"
      using ih by (simp add: p1_def)
    also have "\<dots> = overwrite out (buf @ take (nat left1) ?rest1) (p_data p)"
      using bound ih lcat by (intro overwrite_overwrite) simp
    finally have d: "p_data p' = overwrite out (take (nat left) ?rest) (p_data p)" by (simp only: cat)
    have nl: "nat left \<le> length ?rest"
      using arg_cong [OF cat, of length] lcat sum by (simp add: min_def split: if_splits)
    from ih d sum bound nl show ?thesis by (simp add: p1_def)
  qed
qed

lemma first_block_left_Some:
  "first_block_left left bs = Some l \<Longrightarrow> 0 \<le> l \<and> (\<exists>k. l = left + int k * int bs)"
proof (induction left bs rule: first_block_left.induct)
  case (1 left bs)
  show ?case
  proof (cases "left < 0")
    case False
    with "1.prems" have "l = left" by (subst (asm) first_block_left.simps) simp
    with False show ?thesis by (auto intro: exI [of _ 0])
  next
    case True
    with "1.prems" have bs: "bs \<noteq> 0" and rec: "first_block_left (left + int bs) bs = Some l"
      by (subst (asm) first_block_left.simps, simp split: if_splits)+
    from "1.IH" [OF True bs rec] obtain k where "0 \<le> l" and "l = left + int bs + int k * int bs"
      by auto
    then show ?thesis by (auto intro: exI [of _ "Suc k"] simp: algebra_simps)
  qed
qed


lemma flash_body_ok:
  assumes "flash_body p fd H = (None, p1, fd1)"
  defines "rest \<equiv> drop (snd fd) (fst fd)"
  defines "pad \<equiv> block_padding (p_erase_size p) (H + length rest)"
  shows "p_data p1 = overwrite 0 (replicate H NUL @ rest @ replicate pad NUL) (p_data p)"
    and "H + length rest + pad \<le> length (p_data p)"
    and "p_erase_size p1 = p_erase_size p"
    and "p_can_write p1 = p_can_write p"
    and "p_can_read p1 = p_can_read p"
    and "fst fd1 = fst fd"
proof -
  let ?Z = "replicate H NUL"
  let ?w = "mtd_write_data p 0 ?Z"
  from assms(1) have cw: "p_can_write p"
    by (auto simp: flash_body_def mtd_write_partition_def split: if_splits)
  then have op: "mtd_write_partition p = Some 0" by (simp add: mtd_write_partition_def)
  from assms(1) have ok1: "fst ?w = int (length ?Z)"
    by (auto simp: flash_body_def op Let_def split: if_splits)
  then have fit1: "0 + length ?Z \<le> length (p_data p)"
    using mtd_write_data_ok [of p 0 ?Z] by blast
  define pa where "pa = p\<lparr>p_data := overwrite 0 ?Z (p_data p), p_nwrites := Suc (p_nwrites p)\<rparr>"
  have w: "?w = (int H, pa, H)"
    using mtd_write_data_result [OF fit1] by (simp add: pa_def)
  obtain msg fd' p' out' where wr: "write_rest fd pa H = (msg, fd', p', out')"
    by (cases "write_rest fd pa H") auto
  from assms(1) have ok: "msg = None"
    by (cases msg) (auto simp: flash_body_def op Let_def w wr split: if_splits)
  have lena: "length (p_data pa) = length (p_data p)"
    using fit1 by (simp add: pa_def length_overwrite)
  have Hle: "H \<le> length (p_data pa)" using fit1 lena by simp
  note r = write_rest_ok [OF wr [unfolded ok] Hle, folded rest_def]
  let ?c = "mtd_write_close p' out'"
  from assms(1) have c0: "fst ?c = 0" and res: "p1 = snd ?c" "fd1 = fd'"
    by (auto simp: flash_body_def op Let_def w wr ok split: if_splits)
  have o': "out' = H + length rest" using r by simp
  have pad': "block_padding (p_erase_size p') out' = pad"
    using r by (simp add: pad_def o' pa_def)
  have len': "length (p_data p') = length (p_data p)"
    using r lena by (simp add: length_overwrite)
  from c0 have fit3: "out' + pad \<le> length (p_data p')"
    by (auto simp: mtd_write_close_def Let_def pad' split: if_splits)
  then show b: "H + length rest + pad \<le> length (p_data p)" by (simp add: o' len')
  have p1: "p1 = p'\<lparr>p_data := overwrite out' (replicate pad NUL) (p_data p')\<rparr>"
    using fit3 by (simp add: res mtd_write_close_def Let_def pad')
  have "p_data p' = overwrite (0 + length ?Z) rest (overwrite 0 ?Z (p_data p))"
    using r by (simp add: pa_def)
  also have "\<dots> = overwrite 0 (?Z @ rest) (p_data p)"
    using b by (intro overwrite_overwrite) simp
  finally have d2: "p_data p' = overwrite 0 (?Z @ rest) (p_data p)" .
  have "p_data p1 = overwrite (0 + length (?Z @ rest)) (replicate pad NUL) (overwrite 0 (?Z @ rest) (p_data p))"
    by (simp add: p1 d2 o')
  also have "\<dots> = overwrite 0 ((?Z @ rest) @ replicate pad NUL) (p_data p)"
    using b by (intro overwrite_overwrite) simp
  finally show "p_data p1 = overwrite 0 (?Z @ rest @ replicate pad NUL) (p_data p)" by simp
  show "p_erase_size p1 = p_erase_size p" "p_can_write p1 = p_can_write p"
    "p_can_read p1 = p_can_read p"
    using r by (simp_all add: p1 pa_def)
  show "fst fd1 = fst fd" using r by (simp add: res)
qed


lemma block_padding_multiple: "n = k * bs \<Longrightarrow> block_padding bs n = 0"
  by (simp add: block_padding_def)

lemma flash_header_ok:
  assumes "flash_header p fd header = (None, p2)"
  shows "\<exists>l. l \<le> length (drop (length header) (fst fd))
           \<and> length header + l \<le> length (p_data p)
           \<and> p_data p2 = overwrite 0 (header @ take l (drop (length header) (fst fd))) (p_data p)"
proof -
  let ?H = "length header"
  let ?w = "mtd_write_data p 0 header"
  let ?bs = "p_erase_size p"
  from assms have cw: "p_can_write p"
    by (auto simp: flash_header_def mtd_write_partition_def split: if_splits)
  then have op: "mtd_write_partition p = Some 0" by (simp add: mtd_write_partition_def)
  from assms have ok1: "fst ?w = int (length header)"
    by (auto simp: flash_header_def op Let_def split: if_splits)
  then have fit1: "0 + length header \<le> length (p_data p)"
    using mtd_write_data_ok [of p 0 header] by blast
  define pa where "pa = p\<lparr>p_data := overwrite 0 header (p_data p), p_nwrites := Suc (p_nwrites p)\<rparr>"
  have w: "?w = (int ?H, pa, ?H)"
    using mtd_write_data_result [OF fit1] by (simp add: pa_def)
  have info: "mtd_partition_info pa = (0, ?bs)" by (simp add: mtd_partition_info_def pa_def)
  have sk: "lseek_set fd ?H = (int ?H, (fst fd, ?H))" by (simp add: lseek_set_def)
  from assms obtain left where fl: "first_block_left (int ?bs - int ?H) ?bs = Some left"
    by (cases "first_block_left (int ?bs - int ?H) ?bs")
       (auto simp: flash_header_def op Let_def w info sk)
  obtain msg fd' pb out' where wb: "write_block_rest left (fst fd, ?H) pa ?H = (msg, fd', pb, out')"
    by (cases "write_block_rest left (fst fd, ?H) pa ?H") auto
  from assms have msg: "msg = None"
    by (cases msg) (auto simp: flash_header_def op Let_def w info sk fl wb)
  have lena: "length (p_data pa) = length (p_data p)"
    using fit1 by (simp add: pa_def length_overwrite)
  have Hle: "?H \<le> length (p_data pa)" using fit1 lena by simp
  note r = write_block_rest_ok [OF wb [unfolded msg] Hle]
  from first_block_left_Some [OF fl] obtain k where l0: "0 \<le> left"
    and lk: "left = int ?bs - int ?H + int k * int ?bs" by auto
  have "int (?H + nat left) = int (Suc k * ?bs)" using l0 lk by (simp add: algebra_simps)
  then have mult: "?H + nat left = Suc k * ?bs" by (simp only: of_nat_eq_iff)
  have pad: "block_padding (p_erase_size pb) out' = 0"
    using r mult by (simp add: pa_def block_padding_multiple [of _ "Suc k"])
  let ?c = "mtd_write_close pb out'"
  from assms have res: "p2 = snd ?c" and c0: "fst ?c = 0"
    by (auto simp: flash_header_def op Let_def w info sk fl wb msg split: if_splits)
  then have d2: "p_data p2 = p_data pb"
    by (auto simp: mtd_write_close_def Let_def pad overwrite_Nil split: if_splits)
  let ?t = "take (nat left) (drop ?H (fst fd))"
  have lt: "length ?t = nat left" using r by simp
  have b: "?H + nat left \<le> length (p_data p)" using r lena by simp
  have "p_data pb = overwrite (0 + length header) ?t (overwrite 0 header (p_data p))"
    using r by (simp add: pa_def)
  also have "\<dots> = overwrite 0 (header @ ?t) (p_data p)"
    using b lt by (intro overwrite_overwrite) simp
  finally have "p_data p2 = overwrite 0 (header @ ?t) (p_data p)" by (simp add: d2)
  moreover have "nat left \<le> length (drop ?H (fst fd))" using r by simp
  ultimately show ?thesis using b by blast
qed

lemma flash_complete:
  assumes body: "flash_body p (c, length hdr) (length hdr) = (None, p1, fd1)"
    and head: "flash_header p1 fd1 hdr = (None, p2)"
    and hdr: "hdr = take n c"
  shows "take (length c) (p_data p2) = c"
proof -
  let ?H = "length hdr"
  let ?R = "drop ?H c"
  have c: "hdr @ ?R = c" unfolding hdr by (rule take_drop_length_take)
  note b = flash_body_ok [OF body, simplified]
  from flash_header_ok [OF head] obtain l where
    ll: "l \<le> length ?R" and l2: "?H + l \<le> length (p_data p1)"
    and d2: "p_data p2 = overwrite 0 (hdr @ take l (drop ?H c)) (p_data p1)"
    by (auto simp: b)
  define P where "P = replicate (block_padding (p_erase_size p) (?H + length ?R)) NUL"
  define T where "T = drop (?H + length ?R + length P) (p_data p)"
  have d1: "p_data p1 = replicate ?H NUL @ ?R @ P @ T"
    using b(1) by (simp add: overwrite_def P_def T_def ac_simps)
  have e1: "drop (0 + length (hdr @ take l ?R)) (p_data p1) = drop l ?R @ P @ T"
    using ll by (simp add: d1)
  have "p_data p2 = (hdr @ take l ?R) @ drop l ?R @ P @ T"
    unfolding d2 overwrite_def e1 by simp
  also have "\<dots> = (hdr @ ?R) @ P @ T"
    by (metis append_take_drop_id append_assoc)
  also have "\<dots> = c @ P @ T" by (simp only: c)
  finally show ?thesis by simp
qed


lemma header_same_iff:
  "header_same p header \<longleftrightarrow>
     p_can_read p \<and> header \<noteq> [] \<and> length header \<le> HEADER_SIZE
     \<and> take HEADER_SIZE (p_data p) = header"
proof -
  let ?chk = "take HEADER_SIZE (p_data p)"
  have "length ?chk = length header \<and> take (length header) header = take (length header) ?chk
        \<longleftrightarrow> ?chk = header"
    by (metis order_refl take_all)
  moreover have "?chk = header \<Longrightarrow> length header \<le> HEADER_SIZE" by auto
  ultimately show ?thesis
    by (auto simp: header_same_def mtd_read_partition_def mtd_read_data_def Let_def
             simp del: length_take take_eq_Nil)
qed

lemma flash_body_fails:
  "flash_body p fd H = (Some e, p1, fd1) \<Longrightarrow> \<exists>msg. e = Die msg"
  by (auto simp: flash_body_def Let_def split: option.splits if_splits prod.splits)

lemma flash_header_fails:
  "flash_header p fd header = (Some e, p2) \<Longrightarrow> e = Hang \<or> (\<exists>msg. e = Die msg)"
  by (auto simp: flash_header_def Let_def split: option.splits if_splits prod.splits)


section \<open>Claims about the flashing tool\<close>



text \<open>
  C1 (interrupted write), as amended. When the body write of lines 118--136
  completes, the partition starts with as many zero bytes as the header has. So for
  every image whose header is not all zero, the partition's first bytes differ from
  the image's header at that point, and the skip check of a later invocation fails.
\<close>

theorem flash_interrupted:
  assumes hdr: "header = take HEADER_SIZE img"
    and body: "flash_body p (img, length header) (length header) = (None, p1, fd1)"
    and nz: "header \<noteq> replicate (length header) NUL"
  shows "take (length header) (p_data p1) = replicate (length header) NUL
       \<and> take HEADER_SIZE (p_data p1) \<noteq> take HEADER_SIZE img
       \<and> \<not> header_same p1 header"
proof -
  let ?H = "length header"
  note b = flash_body_ok [OF body]
  have z: "take ?H (p_data p1) = replicate ?H NUL"
    by (simp add: b(1) overwrite_def)
  have HH: "?H \<le> HEADER_SIZE" by (simp add: hdr)
  have ne: "take HEADER_SIZE (p_data p1) \<noteq> header"
  proof
    assume e: "take HEADER_SIZE (p_data p1) = header"
    have "take ?H (take HEADER_SIZE (p_data p1)) = take ?H (p_data p1)"
      using HH by (simp add: min_def)
    with e z have "header = replicate ?H NUL" by simp
    with nz show False by simp
  qed
  then show ?thesis using z by (simp add: header_same_iff hdr [symmetric])
qed

theorem flash_interrupted_witness:
  "flash_body
      \<lparr>p_data = replicate 4096 (CHR 0xFF), p_erase_size = 2048,
        p_can_read = True, p_can_write = True, p_nwrites = 0\<rparr>
      (''ANDROID!'' @ replicate 2040 NUL @ ''body'', 2048) 2048
    = (None,
       \<lparr>p_data = replicate 2048 NUL @ ''body'' @ replicate 2044 NUL, p_erase_size = 2048,
         p_can_read = True, p_can_write = True, p_nwrites = 2\<rparr>,
       (''ANDROID!'' @ replicate 2040 NUL @ ''body'', 2052))
   \<and> take HEADER_SIZE (''ANDROID!'' @ replicate 2040 NUL @ ''body'') \<noteq> replicate 2048 NUL
   \<and> take HEADER_SIZE (replicate 2048 NUL @ ''body'' @ replicate 2044 NUL)
       \<noteq> take HEADER_SIZE (''ANDROID!'' @ replicate 2040 NUL @ ''body'')
   \<and> \<not> header_same
       \<lparr>p_data = replicate 2048 NUL @ ''body'' @ replicate 2044 NUL, p_erase_size = 2048,
         p_can_read = True, p_can_write = True, p_nwrites = 2\<rparr>
       (take HEADER_SIZE (''ANDROID!'' @ replicate 2040 NUL @ ''body''))"
proof -
  let ?img = "''ANDROID!'' @ replicate 2040 NUL @ ''body''"
  let ?hdr = "take HEADER_SIZE ?img"
  have hl: "length ?hdr = 2048" by (simp add: HEADER_SIZE_def)
  have body: "flash_body
      \<lparr>p_data = replicate 4096 (CHR 0xFF), p_erase_size = 2048,
        p_can_read = True, p_can_write = True, p_nwrites = 0\<rparr>
      (?img, length ?hdr) (length ?hdr)
    = (None,
       \<lparr>p_data = replicate 2048 NUL @ ''body'' @ replicate 2044 NUL, p_erase_size = 2048,
         p_can_read = True, p_can_write = True, p_nwrites = 2\<rparr>,
       (?img, 2052))"
    unfolding hl
    by (simp add: flash_body_def mtd_write_partition_def mtd_write_data_def write_rest.simps
        read_fd_def Let_def HEADER_SIZE_def mtd_write_close_def block_padding_def overwrite_def)
  have nz: "?hdr \<noteq> replicate (length ?hdr) NUL"
  proof
    assume "?hdr = replicate (length ?hdr) NUL"
    then have "hd ?hdr = hd (replicate (length ?hdr) NUL)" by (rule arg_cong)
    then show False by (simp add: HEADER_SIZE_def NUL_def)
  qed
  from flash_interrupted [OF refl body nz] body nz show ?thesis
    unfolding hl by simp
qed

text \<open>
  C1 as stated also covers an image whose first \<open>HEADER_SIZE\<close> bytes are all zero.
  There the placeholder is the header: on a partition that starts with \<open>0xFF\<close> bytes,
  once the body write is complete the partition's first \<open>HEADER_SIZE\<close> bytes equal the
  image's, and the skip check of a later invocation succeeds.
\<close>

theorem flash_interrupted_counterexample:
  "take HEADER_SIZE (replicate 4096 (CHR 0xFF)) \<noteq> take HEADER_SIZE (replicate 2048 NUL @ ''body'')
   \<and> flash_body
      \<lparr>p_data = replicate 4096 (CHR 0xFF), p_erase_size = 2048,
        p_can_read = True, p_can_write = True, p_nwrites = 0\<rparr>
      (replicate 2048 NUL @ ''body'', 2048) 2048
    = (None,
       \<lparr>p_data = replicate 2048 NUL @ ''body'' @ replicate 2044 NUL, p_erase_size = 2048,
         p_can_read = True, p_can_write = True, p_nwrites = 2\<rparr>,
       (replicate 2048 NUL @ ''body'', 2052))
   \<and> take HEADER_SIZE (replicate 2048 NUL @ ''body'' @ replicate 2044 NUL)
       = take HEADER_SIZE (replicate 2048 NUL @ ''body'')
   \<and> header_same
       \<lparr>p_data = replicate 2048 NUL @ ''body'' @ replicate 2044 NUL, p_erase_size = 2048,
         p_can_read = True, p_can_write = True, p_nwrites = 2\<rparr>
       (take HEADER_SIZE (replicate 2048 NUL @ ''body''))"
  by (simp add: flash_body_def mtd_write_partition_def mtd_write_data_def write_rest.simps
      read_fd_def Let_def HEADER_SIZE_def mtd_write_close_def block_padding_def overwrite_def
      header_same_def mtd_read_partition_def mtd_read_data_def NUL_def)

text \<open>
  C5 (flash correctness). When the partition's first \<open>HEADER_SIZE\<close> bytes differ from
  the image's and \<open>main\<close> returns 0, the partition afterwards starts with the whole
  image: its first bytes are the image's header, and every byte after them up to the
  image's length is the image's.
\<close>

theorem flash_correct:
  assumes run: "flash_image_main w argv = (Return 0, w')"
    and parse: "foldl scan_arg (False, None, None) (tl argv) = (del, Some pn, Some imgf)"
    and part: "mtd_parts w pn = Some p"
    and fil: "fs_files w imgf = Some img"
    and differ: "take HEADER_SIZE (p_data p) \<noteq> take HEADER_SIZE img"
  shows "\<exists>p'. mtd_parts w' pn = Some p'
           \<and> take (min HEADER_SIZE (length img)) (p_data p') = take HEADER_SIZE img
           \<and> take (length img) (p_data p') = img"
proof -
  let ?hdr = "take HEADER_SIZE img"
  have ns: "\<not> header_same p ?hdr" using differ by (simp add: header_same_iff)
  from run obtain p1 fd1 p2 where
    body: "flash_body p (img, length ?hdr) (length ?hdr) = (None, p1, fd1)"
    and head: "flash_header p1 fd1 ?hdr = (None, p2)"
    and w': "w' = unlink_image del imgf (store_partition pn p2 w)"
    by (auto simp: flash_image_main_def Let_def parse part fil ns read_fd_def
             split: if_splits prod.splits option.splits
             dest: flash_body_fails flash_header_fails)
  have p2: "mtd_parts w' pn = Some p2"
    by (simp add: w' unlink_image_def store_partition_def)
  have all: "take (length img) (p_data p2) = img"
    by (rule flash_complete [OF body head refl])
  have "take (min HEADER_SIZE (length img)) (p_data p2)
      = take HEADER_SIZE (take (length img) (p_data p2))"
    by (simp add: min.commute)
  then have "take (min HEADER_SIZE (length img)) (p_data p2) = take HEADER_SIZE img"
    by (simp only: all)
  with p2 all show ?thesis by blast
qed

theorem flash_correct_witness:
  "flash_image_main
     \<lparr>mtd_scan = 1,
      mtd_parts = [''boot'' \<mapsto> \<lparr>p_data = replicate 8192 (CHR 0xFF), p_erase_size = 4096,
                                 p_can_read = True, p_can_write = True, p_nwrites = 0\<rparr>],
      fs_files = [''boot.img'' \<mapsto>
                    replicate 2048 (CHR ''A'') @ replicate 2048 (CHR ''B'') @ ''tail'']\<rparr>
     [''flash_image'', ''boot'', ''boot.img'']
   = (Return 0,
      \<lparr>mtd_scan = 1,
       mtd_parts = [''boot'' \<mapsto>
          \<lparr>p_data = (replicate 2048 (CHR ''A'') @ replicate 2048 (CHR ''B'') @ ''tail'')
                      @ replicate 4092 NUL,
            p_erase_size = 4096, p_can_read = True, p_can_write = True,
            p_nwrites = Suc (Suc (Suc (Suc (Suc 0))))\<rparr>],
       fs_files = [''boot.img'' \<mapsto>
                     replicate 2048 (CHR ''A'') @ replicate 2048 (CHR ''B'') @ ''tail'']\<rparr>)
   \<and> take HEADER_SIZE (replicate 8192 (CHR 0xFF))
       \<noteq> take HEADER_SIZE (replicate 2048 (CHR ''A'') @ replicate 2048 (CHR ''B'') @ ''tail'')
   \<and> take (length (replicate 2048 (CHR ''A'') @ replicate 2048 (CHR ''B'') @ ''tail''))
        ((replicate 2048 (CHR ''A'') @ replicate 2048 (CHR ''B'') @ ''tail'') @ replicate 4092 NUL)
       = replicate 2048 (CHR ''A'') @ replicate 2048 (CHR ''B'') @ ''tail''"
proof -
  let ?img = "replicate 2048 (CHR ''A'') @ replicate 2048 (CHR ''B'') @ ''tail''"
  let ?p = "\<lparr>p_data = replicate 8192 (CHR 0xFF), p_erase_size = 4096,
             p_can_read = True, p_can_write = True, p_nwrites = 0\<rparr>"
  let ?p' = "\<lparr>p_data = ?img @ replicate 4092 NUL, p_erase_size = 4096,
             p_can_read = True, p_can_write = True, p_nwrites = Suc (Suc (Suc (Suc (Suc 0))))\<rparr>"
  let ?w = "\<lparr>mtd_scan = 1, mtd_parts = [''boot'' \<mapsto> ?p], fs_files = [''boot.img'' \<mapsto> ?img]\<rparr>"
  let ?w' = "\<lparr>mtd_scan = 1, mtd_parts = [''boot'' \<mapsto> ?p'], fs_files = [''boot.img'' \<mapsto> ?img]\<rparr>"
  let ?argv = "[''flash_image'', ''boot'', ''boot.img'']"
  have run: "flash_image_main ?w ?argv = (Return 0, ?w')"
    by (simp add: flash_image_main_def flash_body_def flash_header_def header_same_def
        mtd_read_partition_def mtd_read_data_def mtd_partition_info_def lseek_set_def
        first_block_left.simps write_block_rest.simps unlink_image_def store_partition_def
        mtd_write_partition_def mtd_write_data_def write_rest.simps
        read_fd_def Let_def HEADER_SIZE_def mtd_write_close_def block_padding_def overwrite_def)
  have parse: "foldl scan_arg (False, None, None) (tl ?argv) = (False, Some ''boot'', Some ''boot.img'')"
    by simp
  have differ: "take HEADER_SIZE (p_data ?p) \<noteq> take HEADER_SIZE ?img"
  proof
    assume "take HEADER_SIZE (p_data ?p) = take HEADER_SIZE ?img"
    then have "hd (take HEADER_SIZE (p_data ?p)) = hd (take HEADER_SIZE ?img)" by (rule arg_cong)
    then show False by (simp add: HEADER_SIZE_def)
  qed
  have concl: "take (length ?img) (?img @ replicate 4092 NUL) = ?img"
    using flash_correct [OF run parse _ _ differ] by simp
  from run differ concl show ?thesis by simp
qed


section \<open>Properties of the recovery tool\<close>

declare boot_message_args.simps [simp del]
declare command_file_args.simps [simp del]
declare copy_log.simps [simp del]

lemma names_distinct [simp]:
  "INTENT_FILE \<noteq> LOG_FILE" "INTENT_FILE \<noteq> COMMAND_FILE" "INTENT_FILE \<noteq> TEMPORARY_LOG_FILE"
  "LOG_FILE \<noteq> COMMAND_FILE" "LOG_FILE \<noteq> TEMPORARY_LOG_FILE" "COMMAND_FILE \<noteq> TEMPORARY_LOG_FILE"
  "LOG_FILE \<noteq> INTENT_FILE" "COMMAND_FILE \<noteq> INTENT_FILE" "TEMPORARY_LOG_FILE \<noteq> INTENT_FILE"
  "COMMAND_FILE \<noteq> LOG_FILE" "TEMPORARY_LOG_FILE \<noteq> LOG_FILE" "TEMPORARY_LOG_FILE \<noteq> COMMAND_FILE"
  by (simp_all add: INTENT_FILE_def LOG_FILE_def COMMAND_FILE_def TEMPORARY_LOG_FILE_def)

lemma print_line_fields [simp]:
  "files (print_line l e) p =
     (if stderr_on_tmplog e \<and> \<not> fs_read_only e TEMPORARY_LOG_FILE \<and> p = TEMPORARY_LOG_FILE
      then map_option (\<lambda>c. c @ l @ [LF]) (files e p) else files e p)"
  "printed (print_line l e) = printed e @ [l]"
  "stderr_on_tmplog (print_line l e) = stderr_on_tmplog e"
  "tmplog_offset (print_line l e) = tmplog_offset e"
  "bcb (print_line l e) = bcb e"
  "bcb_read_ok (print_line l e) = bcb_read_ok e"
  "bcb_write_ok (print_line l e) = bcb_write_ok e"
  "root_mounts (print_line l e) = root_mounts e"
  "root_translates (print_line l e) = root_translates e"
  "fs_read_only (print_line l e) = fs_read_only e"
  "install_result (print_line l e) = install_result e"
  "format_result (print_line l e) = format_result e"
  "calls (print_line l e) = calls e"
  "recovery_env.more (print_line l e) = recovery_env.more e"
  by (simp_all add: print_line_def split: option.splits)

lemmas LOG_defs = LOGE_def LOGW_def LOGI_def

lemma args_from_boot_message_many:
  "1 < length argv \<Longrightarrow> args_from_boot_message L boot env argv = (argv, env)"
  by (simp add: args_from_boot_message_def)

lemma args_from_command_file_many:
  "1 < length argv \<Longrightarrow> args_from_command_file env argv = Inr (argv, env)"
  by (simp add: args_from_command_file_def)

text \<open>
  C3 (argument precedence). With more than the program name on the command line,
  \<open>get_args\<close> returns the command line as it is, whatever the control block and the
  command file hold: neither contributes an argument.
\<close>

theorem get_args_command_line:
  assumes "1 < length argv"
  shows "\<exists>env'. get_args L env argv = Inr (argv, env')"
  using assms
  by (simp add: get_args_def Let_def args_from_boot_message_many args_from_command_file_many
           split: prod.splits)

lemma cstr_zeros [simp]: "cstr (replicate n NUL) = []"
  by (cases n) (simp_all add: cstr_def)

lemma field_set_zeros [simp]: "\<not> field_set (replicate n NUL)"
  by (cases n) (simp_all add: field_set_def)

lemma strtok_Nil [simp]: "strtok [] delim = None"
  by (simp add: strtok_def)

lemma zeros_update [simp]: "(replicate n NUL)[k := NUL] = replicate n NUL"
  by (induction n arbitrary: k) (auto split: nat.splits)

lemma args_from_zero_message:
  "args_from_boot_message L (zero_message L) env argv = (argv, env)"
  by (simp add: args_from_boot_message_def zero_message_def Let_def)

lemma get_args_failed_read:
  assumes "\<not> bcb_read_ok env"
  shows "get_args L env argv =
           (case args_from_command_file (LOGW ''Can't read the bootloader message'' env) argv of
              Inl e \<Rightarrow> Inl e
            | Inr (argv2, env5) \<Rightarrow>
                Inr (argv2,
                     snd (set_bootloader_message env5 (boot_message_for L (zero_message L) argv2))))"
proof -
  have z: "zero_message L\<lparr>recovery := (recovery (zero_message L))[k := NUL]\<rparr>
      = zero_message L" for k
    by (simp add: zero_message_def)
  show ?thesis
    using assms
    by (auto simp: get_args_def get_bootloader_message_def Let_def args_from_zero_message z
        zero_message_def [THEN arg_cong, of command] zero_message_def [THEN arg_cong, of status]
        split: sum.splits prod.splits)
qed

lemma get_args_zero_block:
  assumes "bcb_read_ok env" and "bcb env = zero_message L"
  shows "get_args L env argv =
           (case args_from_command_file env argv of
              Inl e \<Rightarrow> Inl e
            | Inr (argv2, env5) \<Rightarrow>
                Inr (argv2,
                     snd (set_bootloader_message env5 (boot_message_for L (zero_message L) argv2))))"
proof -
  have z: "zero_message L\<lparr>recovery := (recovery (zero_message L))[k := NUL]\<rparr>
      = zero_message L" for k
    by (simp add: zero_message_def)
  show ?thesis
    using assms
    by (auto simp: get_args_def get_bootloader_message_def Let_def args_from_zero_message z
        zero_message_def [THEN arg_cong, of command] zero_message_def [THEN arg_cong, of status]
        split: sum.splits prod.splits)
qed


lemma cstr_empty_update: "cstr r = [] \<Longrightarrow> cstr (r[k := NUL]) = []"
  by (cases r; cases k) (auto simp: cstr_def split: if_splits)

lemma field_set_empty_cstr: "cstr r = [] \<Longrightarrow> \<not> field_set r"
  by (cases r) (auto simp: cstr_def field_set_def split: if_splits)

lemma args_from_empty_recovery:
  "cstr (recovery boot) = [] \<Longrightarrow> args_from_boot_message L boot env argv = (argv, env)"
  by (simp add: args_from_boot_message_def Let_def cstr_empty_update field_set_empty_cstr)

lemma strtok_all_delims: "set s \<subseteq> set delim \<Longrightarrow> strtok s delim = None"
  by (auto simp: strtok_def Let_def)

lemma set_cstr: "set (cstr buf) \<subseteq> set buf"
  by (auto simp: cstr_def dest: set_takeWhileD)

lemma set_first_chunk:
  assumes "k \<le> Suc (length (takeWhile (\<lambda>c. c \<noteq> LF) fp))"
  shows "set (take k fp) \<subseteq> set (takeWhile (\<lambda>c. c \<noteq> LF) fp) \<union> {LF}"
proof -
  let ?tw = "takeWhile (\<lambda>c. c \<noteq> LF) fp" and ?dw = "dropWhile (\<lambda>c. c \<noteq> LF) fp"
  have fp: "fp = ?tw @ ?dw" by simp
  have "take k fp = take k ?tw @ take (k - length ?tw) ?dw"
    by (subst fp) (simp only: take_append)
  moreover have "set (take (k - length ?tw) ?dw) \<subseteq> {LF}"
  proof (cases ?dw)
    case Nil
    then show ?thesis by (metis empty_set empty_subsetI take_Nil)
  next
    case (Cons d ds)
    then have "d = LF" using hd_dropWhile [of "\<lambda>c. c \<noteq> LF" fp] by auto
    moreover have "k - length ?tw \<le> 1" using assms by simp
    then have "k - length ?tw = 0 \<or> k - length ?tw = 1" by arith
    ultimately show ?thesis using Cons by auto
  qed
  moreover have "set (take k ?tw) \<subseteq> set ?tw" by (rule set_take_subset)
  ultimately show ?thesis by auto
qed

lemma command_file_args_blank:
  assumes "fp \<noteq> []" and "set (takeWhile (\<lambda>c. c \<noteq> LF) fp) \<subseteq> {CR}" and "argc < MAX_ARGS"
  shows "command_file_args argc fp = Inl NullDereference"
proof -
  let ?k = "min (MAX_ARG_LENGTH - 1) (Suc (length (takeWhile (\<lambda>c. c \<noteq> LF) fp)))"
  have fg: "fgets MAX_ARG_LENGTH fp = Some (take ?k fp, drop ?k fp)"
    using assms(1) by (simp add: fgets_def Let_def)
  have "set (take ?k fp) \<subseteq> set (takeWhile (\<lambda>c. c \<noteq> LF) fp) \<union> {LF}"
    by (rule set_first_chunk) simp
  with assms(2) set_cstr [of "take ?k fp"] have "set (cstr (take ?k fp)) \<subseteq> set [CR, LF]"
    by auto
  then have "strtok (cstr (take ?k fp)) [CR, LF] = None" by (rule strtok_all_delims)
  then show ?thesis
    using assms(3) by (subst command_file_args.simps) (simp add: fg)
qed

text \<open>
  C10 (blank line in the command file). When the command line gives no arguments,
  the \<open>recovery\<close> field of the control block is empty or cannot be read, and the command
  file starts with a line that holds carriage returns only or nothing at all, then
  \<open>strtok\<close> returns \<open>NULL\<close> for that line, \<open>strdup\<close> is called with it and \<open>get_args\<close>
  does not return.
\<close>

theorem get_args_blank_line:
  assumes argc: "length argv \<le> 1"
    and nob: "cstr (recovery (bcb env)) = [] \<or> \<not> bcb_read_ok env"
    and mnt: "root_mounts env COMMAND_FILE" and tr: "root_translates env COMMAND_FILE"
    and fil: "files env COMMAND_FILE = Some content"
    and ne: "content \<noteq> []"
    and blank: "set (takeWhile (\<lambda>c. c \<noteq> LF) content) \<subseteq> {CR}"
  shows "get_args L env argv = Inl NullDereference"
proof -
  obtain rc boot env1 where g: "get_bootloader_message env (zero_message L) = (rc, boot, env1)"
    by (cases "get_bootloader_message env (zero_message L)") auto
  have e1: "root_mounts env1 = root_mounts env" "root_translates env1 = root_translates env"
    "files env1 COMMAND_FILE = files env COMMAND_FILE"
    using g by (auto simp: get_bootloader_message_def LOGW_def split: if_splits)
  have b: "cstr (recovery boot) = []"
    using g nob by (auto simp: get_bootloader_message_def zero_message_def split: if_splits)
  define env3 where "env3 = (let env2 = (if field_set (command boot) then LOGI ''Boot command'' env1 else env1)
     in if field_set (status boot) then LOGI ''Boot status'' env2 else env2)"
  have e3: "root_mounts env3 = root_mounts env" "root_translates env3 = root_translates env"
    "files env3 COMMAND_FILE = files env COMMAND_FILE"
    using e1 by (auto simp: env3_def Let_def LOGI_def)
  have op: "fopen_root_path env3 COMMAND_FILE ''r'' = (Some COMMAND_FILE, env3)"
    using mnt tr fil
    by (simp add: fopen_root_path_def ensure_root_path_mounted_def translate_root_path_def
        fopen_def e3)
  have cf: "args_from_command_file env3 argv = Inl NullDereference"
    using argc command_file_args_blank [OF ne blank, of 1]
    by (simp add: args_from_command_file_def op e3 fil Let_def MAX_ARGS_def)
  show ?thesis
    using cf by (simp add: get_args_def g Let_def args_from_empty_recovery [OF b] env3_def)
qed

lemma main_option_env:
  "calls (snd (main_option s x)) = calls (snd s)
   \<and> format_result (snd (main_option s x)) = format_result (snd s)
   \<and> install_result (snd (main_option s x)) = install_result (snd s)
   \<and> bcb (snd (main_option s x)) = bcb (snd s)"
  by (simp add: main_option_def Let_def LOGE_def)

lemma main_options_env:
  "calls (snd (foldl main_option s xs)) = calls (snd s)
   \<and> format_result (snd (foldl main_option s xs)) = format_result (snd s)
   \<and> install_result (snd (foldl main_option s xs)) = install_result (snd s)"
  by (induction xs arbitrary: s) (simp_all add: main_option_env)

lemma main_options_wiped:
  "wipe_data (fst s) = 1 \<and> wipe_cache (fst s) = 1 \<Longrightarrow>
   wipe_data (fst (foldl main_option s xs)) = 1 \<and> wipe_cache (fst (foldl main_option s xs)) = 1"
  by (induction xs arbitrary: s) (simp_all add: main_option_def Let_def)

lemma main_options_wipe_data:
  "(CHR ''w'', oa) \<in> set xs \<Longrightarrow>
   wipe_data (fst (foldl main_option s xs)) = 1 \<and> wipe_cache (fst (foldl main_option s xs)) = 1"
proof (induction xs arbitrary: s)
  case Nil
  then show ?case by simp
next
  case (Cons x xs)
  show ?case
  proof (cases "x = (CHR ''w'', oa)")
    case True
    then have "wipe_data (fst (main_option s x)) = 1 \<and> wipe_cache (fst (main_option s x)) = 1"
      by (simp add: main_option_def Let_def)
    from main_options_wiped [OF this] show ?thesis by simp
  next
    case False
    with Cons.prems have "(CHR ''w'', oa) \<in> set xs" by simp
    from Cons.IH [OF this] show ?thesis by simp
  qed
qed

lemma main_options_no_package:
  "\<forall>x\<in>set xs. fst x \<noteq> CHR ''u'' \<Longrightarrow>
   update_package (fst (foldl main_option s xs)) = update_package (fst s)"
  by (induction xs arbitrary: s) (simp_all add: main_option_def Let_def)

text \<open>
  C8 (wipe data), as amended. When \<open>getopt_long\<close> returns \<open>'w'\<close> for some argument and
  \<open>'u'\<close> for none (the wipe-data flag is given and no update package), the data root
  is formatted and then the cache root, in that order and whatever the first call
  returns; the status is \<open>INSTALL_ERROR\<close> when either call fails and \<open>INSTALL_SUCCESS\<close>
  otherwise.
\<close>

theorem main_wipe_data:
  assumes w: "(CHR ''w'', oa) \<in> set returned"
    and nou: "\<forall>x\<in>set returned. fst x \<noteq> CHR ''u''"
  shows "main_action (snd (main_options env returned)) (fst (main_options env returned))
       = (if format_result env ''DATA:'' \<noteq> 0 \<or> format_result env ''CACHE:'' \<noteq> 0
          then INSTALL_ERROR else INSTALL_SUCCESS,
          (snd (main_options env returned))
            \<lparr>calls := calls env @ [Format ''DATA:'', Format ''CACHE:'']\<rparr>)"
proof -
  let ?s = "foldl main_option (no_options, env) returned"
  have wd: "wipe_data (fst ?s) = 1" "wipe_cache (fst ?s) = 1"
    using main_options_wipe_data [OF w] by auto
  have up: "update_package (fst ?s) = None"
    using main_options_no_package [OF nou, of "(no_options, env)"] by (simp add: no_options_def)
  have e: "calls (snd ?s) = calls env" "format_result (snd ?s) = format_result env"
    using main_options_env [of "(no_options, env)" returned] by auto
  show ?thesis
    by (simp add: main_options_def main_action_def wd up e Let_def erase_root_def
        format_root_device_def INSTALL_SUCCESS_def INSTALL_ERROR_def)
qed

lemma cstr_NUL_free: "NUL \<notin> set (cstr buf)"
  by (auto simp: cstr_def dest: set_takeWhileD)

lemma cstr_id: "NUL \<notin> set s \<Longrightarrow> cstr s = s"
  by (auto simp: cstr_def)

lemma cstr_append_NUL: "NUL \<notin> set s \<Longrightarrow> cstr (s @ NUL # t) = s"
  by (induction s) (auto simp: cstr_def)

lemma cstr_strlcpy:
  "0 < sz \<Longrightarrow> cstr (strlcpy dst src sz) = take (sz - 1) (cstr src)"
proof -
  assume "0 < sz"
  have "NUL \<notin> set (take (sz - 1) (cstr src))"
    using cstr_NUL_free [of src] by (auto dest: in_set_takeD)
  then show ?thesis
    using \<open>0 < sz\<close> by (simp add: strlcpy_def overwrite_def cstr_append_NUL)
qed

lemma cstr_take: "length (cstr r) < sz \<Longrightarrow> cstr (take sz r) = cstr r"
  unfolding cstr_def
proof (induction r arbitrary: sz)
  case Nil
  then show ?case by simp
next
  case (Cons a r)
  then show ?case by (cases sz) (auto split: if_splits)
qed

lemma take_cstr_prefix: "take (length (cstr r)) r = cstr r"
  unfolding cstr_def by (induction r) auto

lemma cstr_strlcat:
  assumes "length (cstr r) < sz"
  shows "cstr (strlcat r src sz) = take (sz - 1) (cstr r @ cstr src)"
proof -
  let ?d = "length (cstr r)"
  have t: "cstr (take sz r) = cstr r" using assms by (rule cstr_take)
  have nf: "NUL \<notin> set (cstr r @ take (sz - ?d - 1) (cstr src))"
    using cstr_NUL_free [of r] cstr_NUL_free [of src] by (auto dest: in_set_takeD)
  have h: "strlcat r src sz = (cstr r @ take (sz - ?d - 1) (cstr src)) @ NUL # drop (?d + length (take (sz - ?d - 1) (cstr src) @ [NUL])) r"
    using assms by (simp add: strlcat_def t Let_def overwrite_def take_cstr_prefix)
  have "cstr (strlcat r src sz) = cstr r @ take (sz - ?d - 1) (cstr src)"
    unfolding h using nf by (rule cstr_append_NUL)
  also have "\<dots> = take (sz - 1) (cstr r @ cstr src)"
    using assms by simp
  finally show ?thesis .
qed

lemma take_take_append: "take n (take n xs @ ys) = take n (xs @ ys)"
  by (cases "n \<le> length xs") (simp_all add: min_def)

lemma cstr_LF: "cstr [LF] = [LF]"
  by (simp add: cstr_def LF_def NUL_def)

lemma cstr_strlcat_args:
  assumes "length (cstr r) < sz"
  shows "cstr (foldl (\<lambda>r a. strlcat (strlcat r a sz) [LF] sz) r args)
       = take (sz - 1) (cstr r @ concat (map (\<lambda>a. cstr a @ [LF]) args))"
  using assms
proof (induction args arbitrary: r)
  case Nil
  then show ?case by simp
next
  case (Cons a args)
  have 1: "cstr (strlcat r a sz) = take (sz - 1) (cstr r @ cstr a)"
    using Cons.prems by (rule cstr_strlcat)
  then have l1: "length (cstr (strlcat r a sz)) < sz" using Cons.prems by simp
  have 2: "cstr (strlcat (strlcat r a sz) [LF] sz) = take (sz - 1) ((cstr r @ cstr a) @ [LF])"
    using cstr_strlcat [OF l1, of "[LF]"] by (simp only: 1 cstr_LF take_take_append)
  then have l2: "length (cstr (strlcat (strlcat r a sz) [LF] sz)) < sz" using Cons.prems by simp
  let ?C = "concat (map (\<lambda>a. cstr a @ [LF]) args)"
  have "cstr (foldl (\<lambda>r a. strlcat (strlcat r a sz) [LF] sz) r (a # args))
      = take (sz - 1) (take (sz - 1) ((cstr r @ cstr a) @ [LF]) @ ?C)"
    using Cons.IH [OF l2] by (simp only: foldl_Cons 2)
  also have "\<dots> = take (sz - 1) (((cstr r @ cstr a) @ [LF]) @ ?C)"
    by (rule take_take_append)
  finally show ?case by simp
qed

lemma cstr_boot_message_for:
  assumes "0 < sizeof_command L" and "0 < sizeof_recovery L"
  shows "cstr (command (boot_message_for L boot argv)) = take (sizeof_command L - 1) ''boot-recovery''"
    and "cstr (recovery (boot_message_for L boot argv))
       = take (sizeof_recovery L - 1) (''recovery'' @ [LF] @ concat (map (\<lambda>a. cstr a @ [LF]) (tl argv)))"
proof -
  have c: "cstr ''boot-recovery'' = ''boot-recovery''" by (simp add: cstr_def NUL_def)
  show "cstr (command (boot_message_for L boot argv)) = take (sizeof_command L - 1) ''boot-recovery''"
    using assms(1) by (simp add: boot_message_for_def cstr_strlcpy c)
  have r: "cstr (''recovery'' @ [LF]) = ''recovery'' @ [LF]" by (simp add: cstr_def NUL_def LF_def)
  let ?r0 = "strlcpy (recovery boot) (''recovery'' @ [LF]) (sizeof_recovery L)"
  have r0: "cstr ?r0 = take (sizeof_recovery L - 1) (''recovery'' @ [LF])"
    using assms(2) by (simp only: cstr_strlcpy r)
  then have l0: "length (cstr ?r0) < sizeof_recovery L" using assms(2) by simp
  let ?C = "concat (map (\<lambda>a. cstr a @ [LF]) (tl argv))"
  let ?n = "sizeof_recovery L - 1"
  have "cstr (recovery (boot_message_for L boot argv))
      = cstr (foldl (\<lambda>r a. strlcat (strlcat r a (sizeof_recovery L)) [LF] (sizeof_recovery L))
                ?r0 (tl argv))"
    by (simp add: boot_message_for_def)
  also have "\<dots> = take ?n (cstr ?r0 @ ?C)" by (rule cstr_strlcat_args [OF l0])
  also have "\<dots> = take ?n (take ?n (''recovery'' @ [LF]) @ ?C)" by (simp only: r0)
  also have "\<dots> = take ?n ((''recovery'' @ [LF]) @ ?C)" by (rule take_take_append)
  finally show "cstr (recovery (boot_message_for L boot argv))
       = take (sizeof_recovery L - 1) (''recovery'' @ [LF] @ concat (map (\<lambda>a. cstr a @ [LF]) (tl argv)))"
    by simp
qed


lemma strtok_Some:
  assumes "strtok s delim = Some (tok, rest)"
  shows "set tok \<subseteq> set s" and "set rest \<subseteq> set s"
    and "length tok \<le> length s" and "length rest \<le> length s"
proof -
  let ?s1 = "dropWhile (\<lambda>c. c \<in> set delim) s"
  from assms have tok: "tok = takeWhile (\<lambda>c. c \<notin> set delim) ?s1"
    and rest: "rest = drop 1 (dropWhile (\<lambda>c. c \<notin> set delim) ?s1)"
    by (auto simp: strtok_def Let_def split: if_splits)
  have s1: "set ?s1 \<subseteq> set s" by (auto dest: set_dropWhileD)
  show "set tok \<subseteq> set s" using s1 by (auto simp: tok dest: set_takeWhileD)
  show "set rest \<subseteq> set s" using s1 by (auto simp: rest dest!: in_set_dropD set_dropWhileD)
  have l1: "length ?s1 \<le> length s" by (rule length_dropWhile_le)
  have "length tok \<le> length ?s1" unfolding tok by (rule length_takeWhile_le)
  with l1 show "length tok \<le> length s" by simp
  have "length (dropWhile (\<lambda>c. c \<notin> set delim) ?s1) \<le> length ?s1" by (rule length_dropWhile_le)
  with l1 show "length rest \<le> length s" by (simp add: rest)
qed

lemma boot_message_args_items:
  "a \<in> set (boot_message_args argc s) \<Longrightarrow> set a \<subseteq> set s \<and> length a \<le> length s"
proof (induction argc s rule: boot_message_args.induct)
  case (1 argc s)
  show ?case
  proof (cases "argc < MAX_ARGS")
    case False
    with "1.prems" show ?thesis by (subst (asm) boot_message_args.simps) simp
  next
    case True
    show ?thesis
    proof (cases "strtok s [LF]")
      case None
      with "1.prems" True show ?thesis by (subst (asm) boot_message_args.simps) simp
    next
      case (Some p)
      obtain arg s' where p: "p = (arg, s')" by (cases p)
      note st = strtok_Some [OF Some [unfolded p]]
      from "1.prems" True Some p have "a = arg \<or> a \<in> set (boot_message_args (Suc argc) s')"
        by (subst (asm) boot_message_args.simps) simp
      then show ?thesis
      proof
        assume "a = arg"
        with st show ?thesis by simp
      next
        assume "a \<in> set (boot_message_args (Suc argc) s')"
        from "1.IH" [OF True Some [unfolded p] refl this] st show ?thesis by auto
      qed
    qed
  qed
qed

lemma boot_message_args_length:
  "length (boot_message_args argc s) \<le> MAX_ARGS - argc"
proof (induction argc s rule: boot_message_args.induct)
  case (1 argc s)
  show ?case
  proof (cases "argc < MAX_ARGS")
    case False
    then show ?thesis by (subst boot_message_args.simps) simp
  next
    case True
    show ?thesis
    proof (cases "strtok s [LF]")
      case None
      with True show ?thesis by (subst boot_message_args.simps) simp
    next
      case (Some p)
      obtain arg s' where p: "p = (arg, s')" by (cases p)
      from "1.IH" [OF True Some [unfolded p] refl] True Some p show ?thesis
        by (subst boot_message_args.simps) simp
    qed
  qed
qed

lemma fgets_Some:
  assumes "fgets sz fp = Some (buf, fp')"
  shows "length buf \<le> sz - 1"
  using assms by (auto simp: fgets_def Let_def split: if_splits)

lemma command_file_args_Inr:
  "command_file_args argc fp = Inr args \<Longrightarrow>
     length args \<le> MAX_ARGS - argc
   \<and> (\<forall>a\<in>set args. NUL \<notin> set a \<and> length a \<le> MAX_ARG_LENGTH - 1)"
proof (induction argc fp arbitrary: args rule: command_file_args.induct)
  case (1 argc fp)
  show ?case
  proof (cases "argc < MAX_ARGS")
    case False
    with "1.prems" show ?thesis by (subst (asm) command_file_args.simps) auto
  next
    case True
    show ?thesis
    proof (cases "fgets MAX_ARG_LENGTH fp")
      case None
      with "1.prems" True show ?thesis by (subst (asm) command_file_args.simps) auto
    next
      case (Some p)
      obtain buf fp' where p: "p = (buf, fp')" by (cases p)
      note fg = Some [unfolded p]
      from "1.prems" True fg obtain arg rest where
        st: "strtok (cstr buf) [CR, LF] = Some (arg, rest)"
        by (subst (asm) command_file_args.simps)
           (cases "strtok (cstr buf) [CR, LF]", auto)
      from "1.prems" True fg st obtain args' where
        rec: "command_file_args (Suc argc) fp' = Inr args'" and args: "args = arg # args'"
        by (subst (asm) command_file_args.simps)
           (cases "command_file_args (Suc argc) fp'", auto)
      note ih = "1.IH" [OF True fg refl st refl rec]
      have "set arg \<subseteq> set (cstr buf)" and "length arg \<le> length (cstr buf)"
        using strtok_Some [OF st] by auto
      moreover have "NUL \<notin> set (cstr buf)" by (rule cstr_NUL_free)
      moreover have "length (cstr buf) \<le> length buf" unfolding cstr_def by (rule length_takeWhile_le)
      moreover have "length buf \<le> MAX_ARG_LENGTH - 1" using fg by (rule fgets_Some)
      ultimately have "NUL \<notin> set arg \<and> length arg \<le> MAX_ARG_LENGTH - 1" by auto
      with ih True show ?thesis by (auto simp: args)
    qed
  qed
qed

lemma length_takeWhile_stop:
  "i < length xs \<Longrightarrow> \<not> P (xs ! i) \<Longrightarrow> length (takeWhile P xs) \<le> i"
proof (rule ccontr)
  assume i: "i < length xs" and np: "\<not> P (xs ! i)" and "\<not> length (takeWhile P xs) \<le> i"
  then have lt: "i < length (takeWhile P xs)" by simp
  then have "takeWhile P xs ! i = xs ! i" by (rule takeWhile_nth)
  moreover have "takeWhile P xs ! i \<in> set (takeWhile P xs)" using lt by (rule nth_mem)
  ultimately have "P (xs ! i)" by (auto dest: set_takeWhileD)
  with np show False by simp
qed

lemma cstr_terminated: "length (cstr (r[n - 1 := NUL])) \<le> n - 1"
proof (cases "n - 1 < length r")
  case True
  then have "length (takeWhile (\<lambda>c. c \<noteq> NUL) (r[n - 1 := NUL])) \<le> n - 1"
    by (intro length_takeWhile_stop) simp_all
  then show ?thesis by (simp add: cstr_def)
next
  case False
  have "length (cstr (r[n - 1 := NUL])) \<le> length (r[n - 1 := NUL])"
    unfolding cstr_def by (rule length_takeWhile_le)
  with False show ?thesis by simp
qed


lemma args_from_boot_message_env:
  assumes "args_from_boot_message L boot env argv = (argv1, env4)"
  shows "bcb env4 = bcb env \<and> bcb_read_ok env4 = bcb_read_ok env \<and> bcb_write_ok env4 = bcb_write_ok env
       \<and> root_mounts env4 = root_mounts env \<and> root_translates env4 = root_translates env
       \<and> files env4 COMMAND_FILE = files env COMMAND_FILE"
  using assms
  by (auto simp: args_from_boot_message_def Let_def LOGI_def LOGE_def
           split: if_splits option.splits prod.splits)

lemma args_from_boot_message_args:
  assumes "args_from_boot_message L boot env argv = (argv1, env4)"
  shows "argv1 = argv
       \<or> (length argv \<le> 1
          \<and> (\<exists>args. argv1 = ''recovery'' # args \<and> length args \<le> MAX_ARGS - 1
                \<and> (\<forall>a\<in>set args. NUL \<notin> set a \<and> length a \<le> sizeof_recovery L - 1)))"
proof (cases "argv1 = argv")
  case True
  then show ?thesis by simp
next
  case False
  let ?r = "(recovery boot)[sizeof_recovery L - 1 := NUL]"
  from assms False have le: "length argv \<le> 1"
    by (auto simp: args_from_boot_message_def split: if_splits)
  from assms False le obtain s' where st: "strtok (cstr ?r) [LF] = Some (''recovery'', s')"
    and a1: "argv1 = ''recovery'' # boot_message_args 1 s'"
    by (auto simp: args_from_boot_message_def Let_def split: if_splits option.splits prod.splits)
  have s': "set s' \<subseteq> set (cstr ?r)" "length s' \<le> length (cstr ?r)"
    using strtok_Some [OF st] by auto
  have "\<forall>a\<in>set (boot_message_args 1 s'). NUL \<notin> set a \<and> length a \<le> sizeof_recovery L - 1"
  proof
    fix a assume "a \<in> set (boot_message_args 1 s')"
    then have "set a \<subseteq> set s'" "length a \<le> length s'"
      using boot_message_args_items by auto
    with s' cstr_NUL_free [of ?r] cstr_terminated [of ?r "sizeof_recovery L"]
    show "NUL \<notin> set a \<and> length a \<le> sizeof_recovery L - 1" by auto
  qed
  moreover have "length (boot_message_args 1 s') \<le> MAX_ARGS - 1"
    by (rule boot_message_args_length)
  ultimately show ?thesis using le a1 by blast
qed

lemma fopen_root_path_read:
  assumes "fopen_root_path env root_path ''r'' = (fp, env1)"
  shows "bcb env1 = bcb env \<and> bcb_read_ok env1 = bcb_read_ok env \<and> bcb_write_ok env1 = bcb_write_ok env
       \<and> files env1 COMMAND_FILE = files env COMMAND_FILE"
  using assms
  by (auto simp: fopen_root_path_def fopen_def LOGE_def split: if_splits option.splits)

lemma args_from_command_file_env:
  assumes "args_from_command_file env argv1 = Inr (argv2, env5)"
  shows "bcb env5 = bcb env \<and> bcb_read_ok env5 = bcb_read_ok env \<and> bcb_write_ok env5 = bcb_write_ok env
       \<and> files env5 COMMAND_FILE = files env COMMAND_FILE"
proof (cases "length argv1 \<le> 1")
  case False
  with assms show ?thesis by (simp add: args_from_command_file_def)
next
  case True
  obtain fp env1 where op: "fopen_root_path env COMMAND_FILE ''r'' = (fp, env1)"
    by (cases "fopen_root_path env COMMAND_FILE ''r''") auto
  note e1 = fopen_root_path_read [OF op]
  from assms True op have "env5 = env1 \<or> env5 = LOGI (''Got arguments from '' @ COMMAND_FILE) env1"
    by (auto simp: args_from_command_file_def Let_def check_and_fclose_def
             split: option.splits sum.splits)
  with e1 show ?thesis by (auto simp: LOGI_def)
qed

lemma args_from_command_file_args:
  assumes "args_from_command_file env argv1 = Inr (argv2, env5)"
  shows "argv2 = argv1
       \<or> (length argv1 \<le> 1
          \<and> (\<exists>args. argv2 = (case argv1 of [] \<Rightarrow> [] | a # as \<Rightarrow> a) # args
                \<and> length args \<le> MAX_ARGS - 1
                \<and> (\<forall>a\<in>set args. NUL \<notin> set a \<and> length a \<le> MAX_ARG_LENGTH - 1)))"
proof (cases "argv2 = argv1")
  case True
  then show ?thesis by simp
next
  case False
  from assms False have le: "length argv1 \<le> 1"
    by (auto simp: args_from_command_file_def split: if_splits)
  obtain fp env1 where op: "fopen_root_path env COMMAND_FILE ''r'' = (fp, env1)"
    by (cases "fopen_root_path env COMMAND_FILE ''r''") auto
  from assms False le op obtain f where fp: "fp = Some f"
    by (cases fp) (auto simp: args_from_command_file_def)
  let ?c = "case files env1 f of None \<Rightarrow> [] | Some c \<Rightarrow> c"
  from assms le op fp obtain args where cf: "command_file_args 1 ?c = Inr args"
    and a2: "argv2 = (case argv1 of [] \<Rightarrow> [] | a # as \<Rightarrow> a) # args"
    by (cases "command_file_args 1 ?c") (auto simp: args_from_command_file_def Let_def)
  from command_file_args_Inr [OF cf] le a2 show ?thesis by blast
qed

lemma get_args_Inr:
  assumes "get_args L env argv = Inr (argv', env')"
  obtains boot1 env5 argv1 where
    "env' = snd (set_bootloader_message env5 (boot_message_for L boot1 argv'))"
    "bcb_write_ok env5 = bcb_write_ok env" "bcb_read_ok env5 = bcb_read_ok env"
    "argv1 = argv
       \<or> (length argv \<le> 1
          \<and> (\<exists>args. argv1 = ''recovery'' # args \<and> length args \<le> MAX_ARGS - 1
                \<and> (\<forall>a\<in>set args. NUL \<notin> set a \<and> length a \<le> sizeof_recovery L - 1)))"
    "argv' = argv1
       \<or> (length argv1 \<le> 1
          \<and> (\<exists>args. argv' = (case argv1 of [] \<Rightarrow> [] | a # as \<Rightarrow> a) # args
                \<and> length args \<le> MAX_ARGS - 1
                \<and> (\<forall>a\<in>set args. NUL \<notin> set a \<and> length a \<le> MAX_ARG_LENGTH - 1)))"
proof -
  obtain rc boot env1 where g: "get_bootloader_message env (zero_message L) = (rc, boot, env1)"
    by (cases "get_bootloader_message env (zero_message L)") auto
  have e1: "bcb_write_ok env1 = bcb_write_ok env" "bcb_read_ok env1 = bcb_read_ok env"
    using g by (auto simp: get_bootloader_message_def LOGW_def split: if_splits)
  define env3 where "env3 = (let env2 = (if field_set (command boot) then LOGI ''Boot command'' env1 else env1)
     in if field_set (status boot) then LOGI ''Boot status'' env2 else env2)"
  have e3: "bcb_write_ok env3 = bcb_write_ok env" "bcb_read_ok env3 = bcb_read_ok env"
    using e1 by (auto simp: env3_def Let_def LOGI_def)
  obtain argv1 env4 where ab: "args_from_boot_message L boot env3 argv = (argv1, env4)"
    by (cases "args_from_boot_message L boot env3 argv") auto
  define boot1 where "boot1 = (if length argv \<le> 1
      then boot\<lparr>recovery := (recovery boot)[sizeof_recovery L - 1 := NUL]\<rparr> else boot)"
  from assms obtain env5 where ac: "args_from_command_file env4 argv1 = Inr (argv', env5)"
    and e': "env' = snd (set_bootloader_message env5 (boot_message_for L boot1 argv'))"
    by (cases "args_from_command_file env4 argv1")
       (auto simp: get_args_def g Let_def ab env3_def [symmetric, unfolded Let_def]
          boot1_def split: prod.splits)
  have e5: "bcb_write_ok env5 = bcb_write_ok env" "bcb_read_ok env5 = bcb_read_ok env"
    using args_from_boot_message_env [OF ab] args_from_command_file_env [OF ac] e3 by auto
  show thesis
    by (rule that [OF e' e5 args_from_boot_message_args [OF ab] args_from_command_file_args [OF ac]])
qed


lemma get_args_cstrings:
  assumes ret: "get_args L env argv = Inr (argv', env')"
    and cs: "\<forall>a\<in>set argv. NUL \<notin> set a"
  shows "\<forall>a\<in>set argv'. NUL \<notin> set a"
proof -
  from ret obtain boot1 :: bootloader_message and env5 :: recovery_env and argv1 where
    a1: "argv1 = argv
       \<or> (length argv \<le> 1
          \<and> (\<exists>args. argv1 = ''recovery'' # args \<and> length args \<le> MAX_ARGS - 1
                \<and> (\<forall>a\<in>set args. NUL \<notin> set a \<and> length a \<le> sizeof_recovery L - 1)))"
    and a2: "argv' = argv1
       \<or> (length argv1 \<le> 1
          \<and> (\<exists>args. argv' = (case argv1 of [] \<Rightarrow> [] | a # as \<Rightarrow> a) # args
                \<and> length args \<le> MAX_ARGS - 1
                \<and> (\<forall>a\<in>set args. NUL \<notin> set a \<and> length a \<le> MAX_ARG_LENGTH - 1)))"
    by (rule get_args_Inr)
  have r: "NUL \<notin> set ''recovery''" by (simp add: NUL_def)
  from a1 cs r have c1: "\<forall>a\<in>set argv1. NUL \<notin> set a" by auto
  from a2 show ?thesis
  proof
    assume "argv' = argv1"
    with c1 show ?thesis by simp
  next
    assume "length argv1 \<le> 1
          \<and> (\<exists>args. argv' = (case argv1 of [] \<Rightarrow> [] | a # as \<Rightarrow> a) # args
                \<and> length args \<le> MAX_ARGS - 1
                \<and> (\<forall>a\<in>set args. NUL \<notin> set a \<and> length a \<le> MAX_ARG_LENGTH - 1))"
    then obtain args where a: "argv' = (case argv1 of [] \<Rightarrow> [] | a # as \<Rightarrow> a) # args"
      and b: "\<forall>a\<in>set args. NUL \<notin> set a" by auto
    have "NUL \<notin> set (case argv1 of [] \<Rightarrow> [] | a # as \<Rightarrow> a)"
      using c1 by (cases argv1) auto
    with a b show ?thesis by auto
  qed
qed

text \<open>
  C2 (round trip). Whenever \<open>get_args\<close> returns, whatever the arguments came from, and
  the device takes the write, the control block then holds the command
  \<open>boot-recovery\<close> and in its \<open>recovery\<close> field the line \<open>recovery\<close> followed by the
  resolved arguments \<open>argv[1..argc-1]\<close> in their order, one per line, each as far as
  the field has room. Reading the block back, where the device can be read, returns
  this record. The claim as stated covers every outcome: it does not hold where the
  device refuses the write, nor where \<open>get_args\<close> does not return.
\<close>

theorem get_args_round_trip:
  assumes ret: "get_args L env argv = Inr (argv', env')"
    and wr: "bcb_write_ok env"
    and szc: "0 < sizeof_command L" and szr: "0 < sizeof_recovery L"
    and cs: "\<forall>a\<in>set argv. NUL \<notin> set a"
  shows "cstr (command (bcb env')) = take (sizeof_command L - 1) ''boot-recovery''
       \<and> cstr (recovery (bcb env'))
           = take (sizeof_recovery L - 1)
               (''recovery'' @ [LF] @ concat (map (\<lambda>a. a @ [LF]) (tl argv')))
       \<and> (bcb_read_ok env \<longrightarrow>
            get_bootloader_message env' (zero_message L) = (0, bcb env', env'))"
proof -
  from ret obtain boot1 env5 where
    e': "env' = snd (set_bootloader_message env5 (boot_message_for L boot1 argv'))"
    and w5: "bcb_write_ok env5 = bcb_write_ok env" and r5: "bcb_read_ok env5 = bcb_read_ok env"
    by (rule get_args_Inr)
  have b: "bcb env' = boot_message_for L boot1 argv'" and r': "bcb_read_ok env' = bcb_read_ok env"
    using wr w5 r5 by (simp_all add: e' set_bootloader_message_def)
  have "\<forall>a\<in>set argv'. NUL \<notin> set a" using ret cs by (rule get_args_cstrings)
  moreover have "set (tl argv') \<subseteq> set argv'" by (cases argv') auto
  ultimately have "\<forall>a\<in>set (tl argv'). cstr a = a"
    by (auto simp: cstr_id)
  then have m: "map (\<lambda>a. cstr a @ [LF]) (tl argv') = map (\<lambda>a. a @ [LF]) (tl argv')" by simp
  show ?thesis
    using cstr_boot_message_for [OF szc szr, of boot1 argv']
    by (simp add: b m get_bootloader_message_def r')
qed

text \<open>
  The bounds of C7, where \<open>get_args\<close> returns: with no arguments on the command
  line and a \<open>recovery\<close> field of at most \<open>MAX_ARG_LENGTH\<close> bytes, there are at most
  \<open>MAX_ARGS\<close> arguments, each of at most \<open>MAX_ARG_LENGTH\<close> characters.
\<close>

lemma get_args_bounds:
  assumes ret: "get_args L env argv = Inr (argv', env')"
    and argc: "length argv \<le> 1"
    and szr: "sizeof_recovery L \<le> MAX_ARG_LENGTH"
  shows "length argv' \<le> MAX_ARGS \<and> (\<forall>a\<in>set (tl argv'). length a \<le> MAX_ARG_LENGTH)"
proof -
  from ret obtain boot1 :: bootloader_message and env5 :: recovery_env and argv1 where
    a1: "argv1 = argv
       \<or> (length argv \<le> 1
          \<and> (\<exists>args. argv1 = ''recovery'' # args \<and> length args \<le> MAX_ARGS - 1
                \<and> (\<forall>a\<in>set args. NUL \<notin> set a \<and> length a \<le> sizeof_recovery L - 1)))"
    and a2: "argv' = argv1
       \<or> (length argv1 \<le> 1
          \<and> (\<exists>args. argv' = (case argv1 of [] \<Rightarrow> [] | a # as \<Rightarrow> a) # args
                \<and> length args \<le> MAX_ARGS - 1
                \<and> (\<forall>a\<in>set args. NUL \<notin> set a \<and> length a \<le> MAX_ARG_LENGTH - 1)))"
    by (rule get_args_Inr)
  have m: "1 \<le> MAX_ARGS" by (simp add: MAX_ARGS_def)
  have 1: "length argv1 \<le> MAX_ARGS \<and> (\<forall>a\<in>set (tl argv1). length a \<le> MAX_ARG_LENGTH)"
    using a1
  proof
    assume "argv1 = argv"
    with argc m show ?thesis by (cases argv) auto
  next
    assume "length argv \<le> 1
          \<and> (\<exists>args. argv1 = ''recovery'' # args \<and> length args \<le> MAX_ARGS - 1
                \<and> (\<forall>a\<in>set args. NUL \<notin> set a \<and> length a \<le> sizeof_recovery L - 1))"
    with szr m show ?thesis by fastforce
  qed
  from a2 show ?thesis
  proof
    assume "argv' = argv1"
    with 1 show ?thesis by simp
  next
    assume "length argv1 \<le> 1
          \<and> (\<exists>args. argv' = (case argv1 of [] \<Rightarrow> [] | a # as \<Rightarrow> a) # args
                \<and> length args \<le> MAX_ARGS - 1
                \<and> (\<forall>a\<in>set args. NUL \<notin> set a \<and> length a \<le> MAX_ARG_LENGTH - 1))"
    with m show ?thesis by fastforce
  qed
qed

lemma fgets_line:
  assumes "LF \<notin> set a" and "length a + 2 \<le> sz"
  shows "fgets sz (a @ LF # rest) = Some (a @ [LF], rest)"
proof -
  have "takeWhile (\<lambda>c. c \<noteq> LF) (a @ LF # rest) = a"
    using assms(1) by (induction a) auto
  moreover have "min (sz - 1) (Suc (length a)) = Suc (length a)" using assms(2) by simp
  ultimately show ?thesis by (simp add: fgets_def Let_def)
qed

lemma strtok_line:
  assumes "a \<noteq> []" and "CR \<notin> set a" and "LF \<notin> set a"
  shows "strtok (a @ [LF]) [CR, LF] = Some (a, [])"
proof -
  from assms obtain c cs where a: "a = c # cs" by (cases a) auto
  have 1: "dropWhile (\<lambda>c. c \<in> set [CR, LF]) (a @ [LF]) = a @ [LF]"
    using assms by (auto simp: a)
  have 2: "takeWhile (\<lambda>c. c \<notin> set [CR, LF]) (a @ [LF]) = a"
    using assms(2,3) by (induction a) auto
  have 3: "dropWhile (\<lambda>c. c \<notin> set [CR, LF]) (a @ [LF]) = [LF]"
    using assms(2,3) by (induction a) auto
  show ?thesis unfolding strtok_def Let_def 1 2 3 by simp
qed

lemma command_file_args_lines:
  assumes "\<forall>a\<in>set args. plain_argument a" and "k + length args \<le> MAX_ARGS"
  shows "command_file_args k (command_lines args) = Inr args"
  using assms
proof (induction args arbitrary: k)
  case Nil
  show ?case
    by (subst command_file_args.simps) (simp add: command_lines_def fgets_def)
next
  case (Cons a args)
  from Cons.prems have p: "plain_argument a" and k: "k < MAX_ARGS"
    and rest: "\<forall>a\<in>set args. plain_argument a" "Suc k + length args \<le> MAX_ARGS" by auto
  have cl: "command_lines (a # args) = a @ LF # command_lines args"
    by (simp add: command_lines_def)
  have fg: "fgets MAX_ARG_LENGTH (a @ LF # command_lines args) = Some (a @ [LF], command_lines args)"
    using p by (intro fgets_line) (simp_all add: plain_argument_def)
  have cs: "cstr (a @ [LF]) = a @ [LF]"
    using p by (intro cstr_id) (simp add: plain_argument_def NUL_def LF_def)
  have st: "strtok (a @ [LF]) [CR, LF] = Some (a, [])"
    using p by (intro strtok_line) (simp_all add: plain_argument_def)
  show ?case
    by (subst command_file_args.simps) (simp add: k cl fg cs st Cons.IH [OF rest])
qed

lemma args_from_command_file_cong:
  assumes "root_mounts e' = root_mounts e" "root_translates e' = root_translates e"
    "files e' COMMAND_FILE = files e COMMAND_FILE"
  shows "map_sum id fst (args_from_command_file e' argv)
           = map_sum id fst (args_from_command_file e argv)"
  using assms
  by (auto simp: args_from_command_file_def fopen_root_path_def fopen_def
      ensure_root_path_mounted_def translate_root_path_def Let_def check_and_fclose_def
      split: sum.splits option.splits)

lemma map_sum_case:
  "map_sum id fst (case r of Inl e \<Rightarrow> Inl e | Inr (a, x) \<Rightarrow> Inr (a, f a x)) = map_sum id fst r"
  by (cases r) auto

lemma args_from_command_file_lines:
  assumes argc: "length argv \<le> 1"
    and mnt: "root_mounts env COMMAND_FILE" and tr: "root_translates env COMMAND_FILE"
    and fil: "files env COMMAND_FILE = Some (command_lines args)"
    and plain: "\<forall>a\<in>set args. plain_argument a" and n: "length args < MAX_ARGS"
  shows "args_from_command_file env argv
           = Inr ((case argv of [] \<Rightarrow> [] | a # as \<Rightarrow> a) # args,
                  LOGI (''Got arguments from '' @ COMMAND_FILE) env)"
proof -
  have op: "fopen_root_path env COMMAND_FILE ''r'' = (Some COMMAND_FILE, env)"
    using mnt tr fil
    by (simp add: fopen_root_path_def ensure_root_path_mounted_def translate_root_path_def
        fopen_def)
  have cf: "command_file_args (Suc 0) (command_lines args) = Inr args"
    using plain n by (intro command_file_args_lines) auto
  show ?thesis
    using argc by (simp add: args_from_command_file_def op fil cf Let_def check_and_fclose_def)
qed

text \<open>
  C9 (control block read failure). When the device cannot be read, \<open>get_args\<close> goes on
  with the record it has zeroed: the arguments it returns, or the crash it ends in,
  are those it gives on a device that can be read and holds an all-zero record,
  whatever the unreadable device holds. And it falls through to the command file:
  with no arguments on the command line and a command file of plain lines it returns
  the program name and the lines of the command file; the failure shows as one
  warning line, printed before the line that reports the command file; and the
  record written back to the device is made from the all-zero record.
\<close>

theorem get_args_read_failure:
  assumes rd: "\<not> bcb_read_ok env"
  shows "map_sum id fst (get_args L env argv)
           = map_sum id fst (get_args L (env\<lparr>bcb := zero_message L, bcb_read_ok := True\<rparr>) argv)
       \<and> (length argv \<le> 1 \<and> root_mounts env COMMAND_FILE \<and> root_translates env COMMAND_FILE
            \<and> files env COMMAND_FILE = Some (command_lines args)
            \<and> (\<forall>a\<in>set args. plain_argument a) \<and> length args < MAX_ARGS \<longrightarrow>
          (\<exists>env'. get_args L env argv
                     = Inr ((case argv of [] \<Rightarrow> [] | a # as \<Rightarrow> a) # args, env')
             \<and> printed env'
                 = printed env
                   @ [''W:Can't read the bootloader message'',
                      ''I:Got arguments from '' @ COMMAND_FILE]
                   @ (if bcb_write_ok env then [] else [''E:Can't write the bootloader message''])
             \<and> bcb env'
                 = (if bcb_write_ok env
                    then boot_message_for L (zero_message L)
                           ((case argv of [] \<Rightarrow> [] | a # as \<Rightarrow> a) # args)
                    else bcb env)))"
proof (intro conjI impI)
  let ?w = "LOGW ''Can't read the bootloader message'' env"
  let ?z = "env\<lparr>bcb := zero_message L, bcb_read_ok := True\<rparr>"
  have "map_sum id fst (get_args L env argv) = map_sum id fst (args_from_command_file ?w argv)"
    unfolding get_args_failed_read [OF rd] by (rule map_sum_case)
  also have "\<dots> = map_sum id fst (args_from_command_file ?z argv)"
    by (rule args_from_command_file_cong) (simp_all add: LOGW_def)
  also have "\<dots> = map_sum id fst (get_args L ?z argv)"
    unfolding get_args_zero_block [of ?z L, simplified] by (rule map_sum_case [symmetric])
  finally show "map_sum id fst (get_args L env argv) = map_sum id fst (get_args L ?z argv)" .
next
  let ?w = "LOGW ''Can't read the bootloader message'' env"
  let ?a = "(case argv of [] \<Rightarrow> [] | a # as \<Rightarrow> a) # args"
  assume h: "length argv \<le> 1 \<and> root_mounts env COMMAND_FILE \<and> root_translates env COMMAND_FILE
            \<and> files env COMMAND_FILE = Some (command_lines args)
            \<and> (\<forall>a\<in>set args. plain_argument a) \<and> length args < MAX_ARGS"
  have ac: "args_from_command_file ?w argv
      = Inr (?a, LOGI (''Got arguments from '' @ COMMAND_FILE) ?w)"
    using h by (intro args_from_command_file_lines) (simp_all add: LOGW_def)
  let ?e' = "snd (set_bootloader_message (LOGI (''Got arguments from '' @ COMMAND_FILE) ?w)
                    (boot_message_for L (zero_message L) ?a))"
  have g: "get_args L env argv = Inr (?a, ?e')"
    unfolding get_args_failed_read [OF rd] ac by simp
  have p: "printed ?e' = printed env
                   @ [''W:Can't read the bootloader message'',
                      ''I:Got arguments from '' @ COMMAND_FILE]
                   @ (if bcb_write_ok env then [] else [''E:Can't write the bootloader message''])"
    by (simp add: set_bootloader_message_def LOG_defs)
  have b: "bcb ?e' = (if bcb_write_ok env then boot_message_for L (zero_message L) ?a else bcb env)"
    by (simp add: set_bootloader_message_def LOG_defs)
  from g p b show "\<exists>env'. get_args L env argv = Inr (?a, env')
             \<and> printed env'
                 = printed env
                   @ [''W:Can't read the bootloader message'',
                      ''I:Got arguments from '' @ COMMAND_FILE]
                   @ (if bcb_write_ok env then [] else [''E:Can't write the bootloader message''])
             \<and> bcb env' = (if bcb_write_ok env then boot_message_for L (zero_message L) ?a
                           else bcb env)"
    by blast
qed

declare copied_text.simps [simp del]

lemma copy_log_Nil: "copy_log [] lg env = ([], env)"
  by (subst copy_log.simps) (simp add: fgets_def)

lemma copied_text_Nil: "copied_text [] = []"
  by (subst copied_text.simps) (simp add: fgets_def)

lemma copy_log_eq:
  "tmplog \<noteq> [] \<Longrightarrow>
   copy_log tmplog lg env =
     ([], env\<lparr>files := (files env)(lg \<mapsto>
              (case files env lg of None \<Rightarrow> [] | Some c \<Rightarrow> c) @ copied_text tmplog)\<rparr>)"
proof (induction tmplog lg env rule: copy_log.induct)
  case (1 tmplog lg env)
  from "1.prems" obtain buf rest where fg: "fgets 4096 tmplog = Some (buf, rest)"
    by (auto simp: fgets_def Let_def)
  let ?old = "case files env lg of None \<Rightarrow> [] | Some c \<Rightarrow> c"
  have step: "copy_log tmplog lg env = copy_log rest lg (fputs buf lg env)"
    by (subst copy_log.simps) (simp add: fg)
  have t: "copied_text tmplog = cstr buf @ copied_text rest"
    by (subst copied_text.simps) (simp add: fg)
  have f1: "files (fputs buf lg env) = (files env)(lg \<mapsto> ?old @ cstr buf)"
    by (simp add: fputs_def)
  have f2: "fputs buf lg env = env\<lparr>files := (files env)(lg \<mapsto> ?old @ cstr buf)\<rparr>"
    by (simp add: fputs_def)
  have re: "(fputs buf lg env)\<lparr>files := G\<rparr> = env\<lparr>files := G\<rparr>" for G
    unfolding f2 by simp
  show ?case
  proof (cases "rest = []")
    case True
    have "copy_log tmplog lg env = ([], fputs buf lg env)"
      unfolding step True by (rule copy_log_Nil)
    also have "fputs buf lg env = env\<lparr>files := (files env)(lg \<mapsto> ?old @ copied_text tmplog)\<rparr>"
      unfolding t True copied_text_Nil append_Nil2 by (rule f2)
    finally show ?thesis .
  next
    case False
    have fe: "(files (fputs buf lg env))(lg \<mapsto>
              (case files (fputs buf lg env) lg of None \<Rightarrow> [] | Some c \<Rightarrow> c) @ copied_text rest)
        = (files env)(lg \<mapsto> ?old @ cstr buf @ copied_text rest)"
      unfolding f1 by simp
    have "copy_log rest lg (fputs buf lg env)
        = ([], (fputs buf lg env)\<lparr>files := (files (fputs buf lg env))(lg \<mapsto>
              (case files (fputs buf lg env) lg of None \<Rightarrow> [] | Some c \<Rightarrow> c) @ copied_text rest)\<rparr>)"
      by (rule "1.IH" [OF fg refl False])
    also have "\<dots> = ([], env\<lparr>files := (files env)(lg \<mapsto> ?old @ cstr buf @ copied_text rest)\<rparr>)"
      unfolding fe re ..
    finally show ?thesis unfolding step t .
  qed
qed


lemma copy_log_files:
  assumes "files env lg = Some old"
  shows "copy_log tmplog lg env = ([], env\<lparr>files := (files env)(lg \<mapsto> old @ copied_text tmplog)\<rparr>)"
proof (cases "tmplog = []")
  case True
  have "(files env)(lg \<mapsto> old) = files env" using assms by (rule map_upd_triv)
  then show ?thesis by (simp add: True copy_log_Nil copied_text_Nil)
next
  case False
  then show ?thesis by (simp add: copy_log_eq assms)
qed

lemma logged_simps:
  "logged e [] = []"
  "logged e (a @ b) = logged e a @ logged e b"
  "logged (print_line l e) ls = logged e ls"
  by (simp_all add: logged_def log_text_def)


lemma print_line_eq:
  "print_line l e =
     e\<lparr>files := (files e)(TEMPORARY_LOG_FILE :=
                   map_option (\<lambda>c. c @ logged e [l]) (files e TEMPORARY_LOG_FILE)),
       printed := printed e @ [l]\<rparr>"
  by (cases "files e TEMPORARY_LOG_FILE")
     (simp_all add: print_line_def logged_def log_text_def fun_upd_idem)

lemma print_lines_eq:
  "print_lines ls e =
     e\<lparr>files := (files e)(TEMPORARY_LOG_FILE :=
                   map_option (\<lambda>c. c @ logged e ls) (files e TEMPORARY_LOG_FILE)),
       printed := printed e @ ls\<rparr>"
proof (induction ls arbitrary: e)
  case Nil
  show ?case by (simp add: print_lines_def logged_simps option.map_ident fun_upd_idem)
next
  case (Cons l ls)
  have "print_lines (l # ls) e = print_lines ls (print_line l e)" by (simp add: print_lines_def)
  also have "\<dots> = e\<lparr>files := (files e)(TEMPORARY_LOG_FILE :=
                   map_option (\<lambda>c. c @ logged e (l # ls)) (files e TEMPORARY_LOG_FILE)),
       printed := printed e @ l # ls\<rparr>"
    unfolding Cons.IH
    by (cases "files e TEMPORARY_LOG_FILE")
       (simp_all add: print_line_eq logged_def log_text_def)
  finally show ?case .
qed

lemma print_lines_fields:
  "files (print_lines ls e) p =
     (if p = TEMPORARY_LOG_FILE then map_option (\<lambda>c. c @ logged e ls) (files e p) else files e p)"
  "printed (print_lines ls e) = printed e @ ls"
  "stderr_on_tmplog (print_lines ls e) = stderr_on_tmplog e"
  "tmplog_offset (print_lines ls e) = tmplog_offset e"
  "bcb (print_lines ls e) = bcb e"
  "bcb_read_ok (print_lines ls e) = bcb_read_ok e"
  "bcb_write_ok (print_lines ls e) = bcb_write_ok e"
  "root_mounts (print_lines ls e) = root_mounts e"
  "root_translates (print_lines ls e) = root_translates e"
  "fs_read_only (print_lines ls e) = fs_read_only e"
  "install_result (print_lines ls e) = install_result e"
  "format_result (print_lines ls e) = format_result e"
  "calls (print_lines ls e) = calls e"
  "recovery_env.more (print_lines ls e) = recovery_env.more e"
  by (simp_all add: print_lines_eq)



lemma fopen_root_path_change:
  "mode \<noteq> ''r'' \<Longrightarrow>
   fopen_root_path env root_path mode =
     (if opens_for_change env root_path
      then (Some root_path,
            env\<lparr>files := (files env)(root_path \<mapsto>
                   (if mode = ''w'' then [] else case files env root_path of None \<Rightarrow> [] | Some c \<Rightarrow> c))\<rparr>)
      else (None, print_lines (butlast (open_errors env root_path)) env))"
  by (simp add: fopen_root_path_def fopen_def opens_for_change_def ensure_root_path_mounted_def
      translate_root_path_def open_errors_def LOGE_def print_lines_def)

lemma finish_intent_eq:
  "finish_intent e i =
     (case i of
        None \<Rightarrow> e
      | Some s \<Rightarrow>
          if opens_for_change e INTENT_FILE
          then e\<lparr>files := (files e)(INTENT_FILE \<mapsto> cstr s)\<rparr>
          else print_lines (open_errors e INTENT_FILE) e)"
  by (simp add: finish_intent_def fopen_root_path_change check_and_fclose_def fputs_def
      open_errors_def LOGE_def print_lines_def split: option.splits)

lemma finish_logs_eq:
  "finish_logs e =
     (if opens_for_change e LOG_FILE
      then
        (case files e TEMPORARY_LOG_FILE of
           None \<Rightarrow>
             e\<lparr>files := (files e)(LOG_FILE \<mapsto> (case files e LOG_FILE of None \<Rightarrow> [] | Some c \<Rightarrow> c)),
               printed := printed e @ [''E:Can't open '' @ TEMPORARY_LOG_FILE]\<rparr>
         | Some content \<Rightarrow>
             e\<lparr>files := (files e)(LOG_FILE \<mapsto> (case files e LOG_FILE of None \<Rightarrow> [] | Some c \<Rightarrow> c)
                                    @ copied_text (drop (tmplog_offset e) content)),
               tmplog_offset := tmplog_offset e + length (drop (tmplog_offset e) content)\<rparr>)
      else print_lines (open_errors e LOG_FILE) e)"
proof (cases "opens_for_change e LOG_FILE")
  case False
  then show ?thesis
    by (simp add: finish_logs_def fopen_root_path_change open_errors_def LOGE_def print_lines_def)
next
  case True
  let ?old = "case files e LOG_FILE of None \<Rightarrow> [] | Some c \<Rightarrow> c"
  define e1 where "e1 = e\<lparr>files := (files e)(LOG_FILE \<mapsto> ?old)\<rparr>"
  have op: "fopen_root_path e LOG_FILE ''a'' = (Some LOG_FILE, e1)"
    using True by (simp add: fopen_root_path_change e1_def)
  have f1: "files e1 LOG_FILE = Some ?old" by (simp add: e1_def)
  have t1: "files e1 TEMPORARY_LOG_FILE = files e TEMPORARY_LOG_FILE"
    by (simp add: e1_def)
  show ?thesis
  proof (cases "files e TEMPORARY_LOG_FILE")
    case None
    then show ?thesis
      using True
      by (simp add: finish_logs_def op fopen_def t1 LOGE_def print_line_def
          check_and_fclose_def e1_def)
  next
    case (Some content)
    have cl: "copy_log (drop (tmplog_offset e) content) LOG_FILE e1
        = ([], e1\<lparr>files := (files e1)(LOG_FILE \<mapsto> ?old @ copied_text (drop (tmplog_offset e) content))\<rparr>)"
      by (rule copy_log_files [OF f1])
    have o1: "tmplog_offset e1 = tmplog_offset e" by (simp add: e1_def)
    show ?thesis
      using True
      by (simp add: finish_logs_def op fopen_def t1 Some check_and_fclose_def Let_def cl o1)
         (simp add: e1_def)
  qed
qed

lemma finish_unlink_eq:
  "finish_unlink e =
     (if opens_for_change e COMMAND_FILE
      then e\<lparr>files := (files e)(COMMAND_FILE := None)\<rparr>
      else print_lines [''W:Can't unlink '' @ COMMAND_FILE] e)"
proof -
  have "files e COMMAND_FILE = None \<Longrightarrow> (files e)(COMMAND_FILE := None) = files e"
    by (auto simp: fun_eq_iff)
  then show ?thesis
    by (auto simp: finish_unlink_def ensure_root_path_mounted_def translate_root_path_def
        unlink_def LOGW_def opens_for_change_def print_lines_def)
qed

lemma set_bootloader_message_eq:
  "snd (set_bootloader_message e b) =
     (if bcb_write_ok e then e\<lparr>bcb := b\<rparr>
      else print_lines [''E:Can't write the bootloader message''] e)"
  by (simp add: set_bootloader_message_def LOGE_def print_lines_def)


lemma drop_length_copied [simp]: "drop (n + length (drop n c)) c = []"
  by simp

lemma finish_intent_fields:
  "files (finish_intent x i) k =
     (if k = TEMPORARY_LOG_FILE
      then map_option (\<lambda>c. c @ logged x (intent_errors x i)) (files x k)
      else (case i of
              None \<Rightarrow> files x k
            | Some s \<Rightarrow> if opens_for_change x INTENT_FILE \<and> k = INTENT_FILE then Some (cstr s)
                        else files x k))"
  "printed (finish_intent x i) = printed x @ intent_errors x i"
  "tmplog_offset (finish_intent x i) = tmplog_offset x"
  "stderr_on_tmplog (finish_intent x i) = stderr_on_tmplog x"
  "bcb (finish_intent x i) = bcb x"
  "bcb_read_ok (finish_intent x i) = bcb_read_ok x"
  "bcb_write_ok (finish_intent x i) = bcb_write_ok x"
  "root_mounts (finish_intent x i) = root_mounts x"
  "root_translates (finish_intent x i) = root_translates x"
  "fs_read_only (finish_intent x i) = fs_read_only x"
  "install_result (finish_intent x i) = install_result x"
  "format_result (finish_intent x i) = format_result x"
  "calls (finish_intent x i) = calls x"
  "recovery_env.more (finish_intent x i) = recovery_env.more x"
  by (simp_all add: finish_intent_eq intent_errors_def print_lines_fields logged_simps
      option.map_ident split: option.splits)

lemma finish_logs_fields:
  "files (finish_logs x) k =
     (if k = TEMPORARY_LOG_FILE
      then map_option (\<lambda>c. c @ logged x (log_errors x)) (files x k)
      else if opens_for_change x LOG_FILE \<and> k = LOG_FILE
      then Some ((case files x LOG_FILE of None \<Rightarrow> [] | Some c \<Rightarrow> c)
                 @ (case files x TEMPORARY_LOG_FILE of
                      None \<Rightarrow> []
                    | Some c \<Rightarrow> copied_text (drop (tmplog_offset x) c)))
      else files x k)"
  "printed (finish_logs x) = printed x @ log_errors x"
  "tmplog_offset (finish_logs x) =
     (if opens_for_change x LOG_FILE
      then (case files x TEMPORARY_LOG_FILE of
              None \<Rightarrow> tmplog_offset x
            | Some c \<Rightarrow> tmplog_offset x + length (drop (tmplog_offset x) c))
      else tmplog_offset x)"
  "stderr_on_tmplog (finish_logs x) = stderr_on_tmplog x"
  "bcb (finish_logs x) = bcb x"
  "bcb_read_ok (finish_logs x) = bcb_read_ok x"
  "bcb_write_ok (finish_logs x) = bcb_write_ok x"
  "root_mounts (finish_logs x) = root_mounts x"
  "root_translates (finish_logs x) = root_translates x"
  "fs_read_only (finish_logs x) = fs_read_only x"
  "install_result (finish_logs x) = install_result x"
  "format_result (finish_logs x) = format_result x"
  "calls (finish_logs x) = calls x"
  "recovery_env.more (finish_logs x) = recovery_env.more x"
  by (simp_all add: finish_logs_eq log_errors_def print_lines_fields logged_simps
      option.map_ident split: option.splits)

lemma finish_unlink_fields:
  "files (finish_unlink x) k =
     (if k = TEMPORARY_LOG_FILE
      then map_option (\<lambda>c. c @ logged x (unlink_errors x)) (files x k)
      else if opens_for_change x COMMAND_FILE \<and> k = COMMAND_FILE then None else files x k)"
  "printed (finish_unlink x) = printed x @ unlink_errors x"
  "tmplog_offset (finish_unlink x) = tmplog_offset x"
  "stderr_on_tmplog (finish_unlink x) = stderr_on_tmplog x"
  "bcb (finish_unlink x) = bcb x"
  "bcb_read_ok (finish_unlink x) = bcb_read_ok x"
  "bcb_write_ok (finish_unlink x) = bcb_write_ok x"
  "root_mounts (finish_unlink x) = root_mounts x"
  "root_translates (finish_unlink x) = root_translates x"
  "fs_read_only (finish_unlink x) = fs_read_only x"
  "install_result (finish_unlink x) = install_result x"
  "format_result (finish_unlink x) = format_result x"
  "calls (finish_unlink x) = calls x"
  "recovery_env.more (finish_unlink x) = recovery_env.more x"
  by (simp_all add: finish_unlink_eq unlink_errors_def print_lines_fields logged_simps
      option.map_ident)

lemma set_bootloader_message_fields:
  "files (snd (set_bootloader_message x b)) k =
     (if k = TEMPORARY_LOG_FILE
      then map_option (\<lambda>c. c @ logged x (bcb_errors x)) (files x k) else files x k)"
  "printed (snd (set_bootloader_message x b)) = printed x @ bcb_errors x"
  "tmplog_offset (snd (set_bootloader_message x b)) = tmplog_offset x"
  "stderr_on_tmplog (snd (set_bootloader_message x b)) = stderr_on_tmplog x"
  "bcb (snd (set_bootloader_message x b)) = (if bcb_write_ok x then b else bcb x)"
  "bcb_read_ok (snd (set_bootloader_message x b)) = bcb_read_ok x"
  "bcb_write_ok (snd (set_bootloader_message x b)) = bcb_write_ok x"
  "root_mounts (snd (set_bootloader_message x b)) = root_mounts x"
  "root_translates (snd (set_bootloader_message x b)) = root_translates x"
  "fs_read_only (snd (set_bootloader_message x b)) = fs_read_only x"
  "install_result (snd (set_bootloader_message x b)) = install_result x"
  "format_result (snd (set_bootloader_message x b)) = format_result x"
  "calls (snd (set_bootloader_message x b)) = calls x"
  "recovery_env.more (snd (set_bootloader_message x b)) = recovery_env.more x"
  by (simp_all add: set_bootloader_message_eq bcb_errors_def print_lines_fields logged_simps
      option.map_ident)

lemmas finish_fields =
  finish_intent_fields finish_logs_fields finish_unlink_fields set_bootloader_message_fields


lemma errors_cong:
  assumes "root_mounts y = root_mounts x" "root_translates y = root_translates x"
    "fs_read_only y = fs_read_only x" "bcb_write_ok y = bcb_write_ok x"
    "stderr_on_tmplog y = stderr_on_tmplog x"
    "(files y TEMPORARY_LOG_FILE = None) = (files x TEMPORARY_LOG_FILE = None)"
  shows "opens_for_change y p = opens_for_change x p"
    "open_errors y p = open_errors x p"
    "logged y ls = logged x ls"
    "intent_errors y i = intent_errors x i"
    "log_errors y = log_errors x"
    "bcb_errors y = bcb_errors x"
    "unlink_errors y = unlink_errors x"
    "finish_errors y i = finish_errors x i"
proof -
  show o: "opens_for_change y p = opens_for_change x p" for p
    using assms by (simp add: opens_for_change_def)
  show e: "open_errors y p = open_errors x p" for p
    using assms by (simp add: open_errors_def)
  show "logged y ls = logged x ls" using assms by (simp add: logged_def)
  show 1: "intent_errors y i = intent_errors x i"
    by (simp add: intent_errors_def o e split: option.splits)
  show 2: "log_errors y = log_errors x"
    using assms(6) by (auto simp: log_errors_def o e split: option.splits)
  show 3: "bcb_errors y = bcb_errors x" using assms by (simp add: bcb_errors_def)
  show 4: "unlink_errors y = unlink_errors x" by (simp add: unlink_errors_def o)
  show "finish_errors y i = finish_errors x i" by (simp add: finish_errors_def 1 2 3 4)
qed

lemmas finish_intent_errors = errors_cong [of "finish_intent x i" x for x i, simplified finish_intent_fields, simplified]
lemmas finish_logs_errors = errors_cong [of "finish_logs x" x for x, simplified finish_logs_fields, simplified]
lemmas set_bootloader_message_errors =
  errors_cong [of "snd (set_bootloader_message x b)" x for x b, simplified set_bootloader_message_fields, simplified]
lemmas finish_unlink_errors = errors_cong [of "finish_unlink x" x for x, simplified finish_unlink_fields, simplified]



lemma finish_recovery_config:
  "opens_for_change (finish_recovery L x i) p = opens_for_change x p"
  "open_errors (finish_recovery L x i) p = open_errors x p"
  "logged (finish_recovery L x i) ls = logged x ls"
  "stderr_on_tmplog (finish_recovery L x i) = stderr_on_tmplog x"
  "bcb_write_ok (finish_recovery L x i) = bcb_write_ok x"
  "bcb_read_ok (finish_recovery L x i) = bcb_read_ok x"
  "root_mounts (finish_recovery L x i) = root_mounts x"
  "root_translates (finish_recovery L x i) = root_translates x"
  "fs_read_only (finish_recovery L x i) = fs_read_only x"
  "install_result (finish_recovery L x i) = install_result x"
  "format_result (finish_recovery L x i) = format_result x"
  "calls (finish_recovery L x i) = calls x"
  "recovery_env.more (finish_recovery L x i) = recovery_env.more x"
  by (simp_all add: finish_recovery_def finish_fields finish_intent_errors finish_logs_errors
      set_bootloader_message_errors finish_unlink_errors)


lemma finish_recovery_bcb:
  "bcb (finish_recovery L x i) = (if bcb_write_ok x then zero_message L else bcb x)"
  by (simp add: finish_recovery_def finish_fields)

lemma finish_recovery_offset:
  "tmplog_offset (finish_recovery L x i) =
     (if opens_for_change x LOG_FILE
      then (case files x TEMPORARY_LOG_FILE of
              None \<Rightarrow> tmplog_offset x
            | Some c \<Rightarrow> tmplog_offset x
                        + length (drop (tmplog_offset x) (c @ logged x (intent_errors x i))))
      else tmplog_offset x)"
  by (auto simp: finish_recovery_def finish_fields finish_intent_errors split: option.splits)

lemma finish_recovery_tmplog:
  "files (finish_recovery L x i) TEMPORARY_LOG_FILE
     = map_option (\<lambda>c. c @ logged x (finish_errors x i)) (files x TEMPORARY_LOG_FILE)"
  by (simp add: finish_recovery_def finish_fields finish_intent_errors finish_logs_errors
      set_bootloader_message_errors finish_unlink_errors finish_errors_def logged_simps
      option.map_comp comp_def)

lemma finish_recovery_files:
  "k \<noteq> TEMPORARY_LOG_FILE \<Longrightarrow>
   files (finish_recovery L x i) k =
     (if opens_for_change x COMMAND_FILE \<and> k = COMMAND_FILE then None
      else if opens_for_change x LOG_FILE \<and> k = LOG_FILE
      then Some ((case files x LOG_FILE of None \<Rightarrow> [] | Some c \<Rightarrow> c)
                 @ (case files x TEMPORARY_LOG_FILE of
                      None \<Rightarrow> []
                    | Some c \<Rightarrow>
                        copied_text (drop (tmplog_offset x) (c @ logged x (intent_errors x i)))))
      else (case i of
              None \<Rightarrow> files x k
            | Some s \<Rightarrow> if opens_for_change x INTENT_FILE \<and> k = INTENT_FILE then Some (cstr s)
                        else files x k))"
  by (auto simp: finish_recovery_def finish_fields finish_intent_errors finish_logs_errors
      set_bootloader_message_errors finish_unlink_errors
      split: option.splits)








lemma open_errors_not_Nil [simp]: "open_errors x p \<noteq> []"
  by (simp add: open_errors_def)





section \<open>The claims about the recovery tool at concrete inputs\<close>

lemma example_fields:
  "bcb example_env = zero_message example_layout"
  "bcb_read_ok example_env" "bcb_write_ok example_env"
  "root_mounts example_env p" "root_translates example_env p"
  "\<not> fs_read_only example_env p" "files example_env = Map.empty"
  "\<not> stderr_on_tmplog example_env"
  "tmplog_offset example_env = 0" "printed example_env = []"
  "install_result example_env p = 0" "format_result example_env p = 0" "calls example_env = []"
  "sizeof_command example_layout = 32" "sizeof_status example_layout = 32"
  "sizeof_recovery example_layout = 1024"
  by (simp_all add: example_env_def example_layout_def)

lemma session_fields:
  "bcb session_env = example_request"
  "bcb_read_ok session_env" "bcb_write_ok session_env"
  "root_mounts session_env p" "root_translates session_env p"
  "\<not> fs_read_only session_env p"
  "files session_env = [TEMPORARY_LOG_FILE \<mapsto> ''Starting recovery'' @ [LF],
                        COMMAND_FILE \<mapsto> ''--update_package=CACHE:update.zip'' @ [LF]]"
  "stderr_on_tmplog session_env"
  "tmplog_offset session_env = 0" "printed session_env = []"
  by (simp_all add: session_env_def example_fields)

text \<open>
  C3 at an input: arguments on the command line, and a command file that asks for
  something else.
\<close>

theorem get_args_command_line_witness:
  "\<exists>env'. get_args example_layout
            (example_env\<lparr>files := [COMMAND_FILE \<mapsto> ''--wipe_data'' @ [LF]]\<rparr>)
            [''recovery'', ''--wipe_cache'']
          = Inr ([''recovery'', ''--wipe_cache''], env')"
  using get_args_command_line [of "[''recovery'', ''--wipe_cache'']" example_layout
      "example_env\<lparr>files := [COMMAND_FILE \<mapsto> ''--wipe_data'' @ [LF]]\<rparr>"]
  by simp

lemma get_args_example:
  "\<exists>env'. get_args example_layout
            (example_env\<lparr>files := [COMMAND_FILE \<mapsto> ''--wipe_data'' @ [LF]]\<rparr>)
            [''recovery'']
          = Inr ([''recovery'', ''--wipe_data''], env')"
  by (simp add: get_args_def get_bootloader_message_def example_fields args_from_zero_message
      zero_message_def [THEN arg_cong, of command] zero_message_def [THEN arg_cong, of status]
      args_from_command_file_def fopen_root_path_def ensure_root_path_mounted_def
      translate_root_path_def fopen_def Let_def LOGI_def
      check_and_fclose_def command_file_args.simps
      MAX_ARGS_def MAX_ARG_LENGTH_def fgets_def
      strtok_def cstr_def LF_def CR_def NUL_def)

text \<open>
  C2 at an input: no arguments on the command line, an empty control block and a
  command file with one line.
\<close>

theorem get_args_round_trip_witness:
  "case get_args example_layout
          (example_env\<lparr>files := [COMMAND_FILE \<mapsto> ''--wipe_data'' @ [LF]]\<rparr>) [''recovery''] of
     Inl e \<Rightarrow> False
   | Inr (argv', env') \<Rightarrow>
       argv' = [''recovery'', ''--wipe_data'']
       \<and> cstr (command (bcb env')) = ''boot-recovery''
       \<and> cstr (recovery (bcb env')) = ''recovery'' @ [LF] @ ''--wipe_data'' @ [LF]
       \<and> get_bootloader_message env' (zero_message example_layout) = (0, bcb env', env')"
proof -
  let ?E = "example_env\<lparr>files := [COMMAND_FILE \<mapsto> ''--wipe_data'' @ [LF]]\<rparr>"
  from get_args_example obtain env' where
    eq: "get_args example_layout ?E [''recovery''] = Inr ([''recovery'', ''--wipe_data''], env')"
    by blast
  have cs: "\<forall>a\<in>set [''recovery'']. NUL \<notin> set a" by (simp add: NUL_def)
  from get_args_round_trip [OF eq _ _ _ cs] show ?thesis
    unfolding eq by (simp add: example_fields)
qed

lemma get_args_blank_second_line:
  "get_args example_layout
     (example_env\<lparr>files := [COMMAND_FILE \<mapsto> ''--wipe_data'' @ [LF, LF] @ ''--wipe_cache'' @ [LF]]\<rparr>)
     [''recovery'']
   = Inl NullDereference"
  by (simp add: get_args_def get_bootloader_message_def example_fields args_from_zero_message
      zero_message_def [THEN arg_cong, of command] zero_message_def [THEN arg_cong, of status]
      args_from_command_file_def fopen_root_path_def ensure_root_path_mounted_def
      translate_root_path_def fopen_def Let_def LOGI_def
      check_and_fclose_def command_file_args.simps
      MAX_ARGS_def MAX_ARG_LENGTH_def fgets_def
      strtok_def cstr_def LF_def CR_def NUL_def)

text \<open>
  C2 as stated covers every outcome of \<open>get_args\<close>. On a device that refuses the
  write, \<open>get_args\<close> returns all the same (the result of \<open>set_bootloader_message\<close> is
  not looked at, line 217), and the control block does not hold the arguments: here
  it is all zero as before. And with an empty line in the command file \<open>get_args\<close>
  does not reach the write.
\<close>

theorem get_args_round_trip_counterexample:
  "(case get_args example_layout (example_env\<lparr>bcb_write_ok := False\<rparr>)
           [''recovery'', ''--wipe_data''] of
      Inl e \<Rightarrow> False
    | Inr (argv', env') \<Rightarrow>
        argv' = [''recovery'', ''--wipe_data'']
        \<and> cstr (command (bcb env')) = []
        \<and> cstr (recovery (bcb env')) = []
        \<and> get_bootloader_message env' (zero_message example_layout)
            = (0, zero_message example_layout, env'))
   \<and> get_args example_layout
         (example_env\<lparr>files := [COMMAND_FILE \<mapsto> ''--wipe_data'' @ [LF, LF] @ ''--wipe_cache'' @ [LF]]\<rparr>)
         [''recovery'']
       = Inl NullDereference"
proof -
  have "case get_args example_layout (example_env\<lparr>bcb_write_ok := False\<rparr>)
           [''recovery'', ''--wipe_data''] of
      Inl e \<Rightarrow> False
    | Inr (argv', env') \<Rightarrow>
        argv' = [''recovery'', ''--wipe_data'']
        \<and> cstr (command (bcb env')) = []
        \<and> cstr (recovery (bcb env')) = []
        \<and> get_bootloader_message env' (zero_message example_layout)
            = (0, zero_message example_layout, env')"
    by (simp add: get_args_def get_bootloader_message_def example_fields args_from_zero_message
        zero_message_def [THEN arg_cong, of command] zero_message_def [THEN arg_cong, of status]
        zero_message_def [THEN arg_cong, of recovery]
        args_from_command_file_def set_bootloader_message_def Let_def LOG_defs)
  then show ?thesis using get_args_blank_second_line by simp
qed

text \<open>
  C9 at an input: the device cannot be read and holds a request for a data wipe; the
  command file asks for an update package. \<open>get_args\<close> returns the argument of the
  command file after one warning. Were the device readable, it would return the
  argument of the control block.
\<close>

theorem get_args_read_failure_witness:
  "\<exists>env'. get_args example_layout (session_env\<lparr>bcb_read_ok := False\<rparr>) [''recovery'']
            = Inr ([''recovery'', ''--update_package=CACHE:update.zip''], env')
        \<and> printed env' = [''W:Can't read the bootloader message'',
                           ''I:Got arguments from CACHE:recovery/command'']
        \<and> bcb env' = boot_message_for example_layout (zero_message example_layout)
                        [''recovery'', ''--update_package=CACHE:update.zip'']"
  using get_args_read_failure [where env = "session_env\<lparr>bcb_read_ok := False\<rparr>"
      and L = example_layout and argv = "[''recovery'']"
      and args = "[''--update_package=CACHE:update.zip'']"]
  by (simp add: session_fields command_lines_def plain_argument_def MAX_ARGS_def
      MAX_ARG_LENGTH_def COMMAND_FILE_def NUL_def CR_def LF_def)

lemma example_request_recovery:
  "(recovery example_request)[sizeof_recovery example_layout - Suc 0 := NUL]
     = recovery example_request"
  "cstr (recovery example_request) = ''recovery'' @ [LF] @ ''--wipe_data'' @ [LF]"
proof -
  have n: "recovery example_request ! 1023 = NUL"
    by (simp add: example_request_def nth_append)
  have "(recovery example_request)[1023 := NUL] = recovery example_request"
    by (metis n list_update_id)
  then show "(recovery example_request)[sizeof_recovery example_layout - Suc 0 := NUL]
     = recovery example_request"
    by (simp add: example_layout_def)
  show "cstr (recovery example_request) = ''recovery'' @ [LF] @ ''--wipe_data'' @ [LF]"
    by (simp add: example_request_def cstr_def NUL_def LF_def)
qed

lemma get_args_readable_device:
  "\<exists>env'. get_args example_layout session_env [''recovery'']
            = Inr ([''recovery'', ''--wipe_data''], env')"
proof -
  define rest where "rest = ''--wipe_data'' @ [LF]"
  define body where "body = ''recovery'' @ LF # rest"
  have c: "cstr (recovery example_request) = body"
    by (simp add: example_request_recovery body_def rest_def)
  have st: "strtok body [LF] = Some (''recovery'', rest)"
    by (simp add: strtok_def LF_def body_def)
  have b2: "boot_message_args (Suc (Suc 0)) [] = []"
    by (subst boot_message_args.simps) (simp add: MAX_ARGS_def)
  have b1: "boot_message_args (Suc 0) rest = [''--wipe_data'']"
    by (subst boot_message_args.simps) (simp add: MAX_ARGS_def strtok_def LF_def b2 rest_def)
  have ab: "args_from_boot_message example_layout example_request e [''recovery'']
      = ([''recovery'', ''--wipe_data''], LOGI ''Got arguments from boot message'' e)" for e
    by (simp add: args_from_boot_message_def Let_def example_request_recovery(1) c st b1)
  show ?thesis
    by (simp add: get_args_def get_bootloader_message_def session_fields Let_def ab
        args_from_command_file_def split: prod.splits)
qed

text \<open>
  C10 at an input: a command file that starts with an empty line.
\<close>

theorem get_args_blank_line_witness:
  "get_args example_layout
     (example_env\<lparr>files := [COMMAND_FILE \<mapsto> [LF] @ ''--wipe_data'' @ [LF]]\<rparr>) [''recovery'']
   = Inl NullDereference"
  using get_args_blank_line [of "[''recovery'']"
      "example_env\<lparr>files := [COMMAND_FILE \<mapsto> [LF] @ ''--wipe_data'' @ [LF]]\<rparr>"
      "[LF] @ ''--wipe_data'' @ [LF]" example_layout]
  by (simp add: example_fields zero_message_def)

text \<open>
  C8 at an input: formatting the data root fails; the cache root is formatted all the
  same and the status is \<open>INSTALL_ERROR\<close>.
\<close>

theorem main_wipe_data_witness:
  "main_action
     (snd (main_options (example_env\<lparr>format_result := (\<lambda>root. if root = ''DATA:'' then -1 else 0)\<rparr>)
             [(CHR ''w'', [])]))
     (fst (main_options (example_env\<lparr>format_result := (\<lambda>root. if root = ''DATA:'' then -1 else 0)\<rparr>)
             [(CHR ''w'', [])]))
   = (INSTALL_ERROR,
      example_env\<lparr>format_result := (\<lambda>root. if root = ''DATA:'' then -1 else 0),
                    calls := [Format ''DATA:'', Format ''CACHE:'']\<rparr>)"
  using main_wipe_data [of "[]" "[(CHR ''w'', [])]"
      "example_env\<lparr>format_result := (\<lambda>root. if root = ''DATA:'' then -1 else 0)\<rparr>"]
  by (simp add: example_fields main_options_def main_option_def Let_def)

text \<open>
  C8 as stated covers every session with the wipe-data flag. With an update package
  given as well, \<open>main\<close> installs the package and formats nothing.
\<close>

theorem main_wipe_data_counterexample:
  "(CHR ''w'', []) \<in> set [(CHR ''u'', ''SDCARD:update.zip''), (CHR ''w'', [])]
   \<and> wipe_data (fst (main_options example_env [(CHR ''u'', ''SDCARD:update.zip''), (CHR ''w'', [])])) = 1
   \<and> calls (snd (main_action
         (snd (main_options example_env [(CHR ''u'', ''SDCARD:update.zip''), (CHR ''w'', [])]))
         (fst (main_options example_env [(CHR ''u'', ''SDCARD:update.zip''), (CHR ''w'', [])]))))
       = [Install ''SDCARD:update.zip'']"
  by (simp add: main_options_def main_option_def main_action_def install_package_def Let_def
      no_options_def example_fields)

lemma copied_starting:
  "copied_text (''Starting recovery'' @ [LF]) = ''Starting recovery'' @ [LF]"
  by (simp add: copied_text.simps fgets_def cstr_def LF_def NUL_def Let_def)




text \<open>
  Where the device refuses the write, the first call prints its error after it has
  copied the temporary log. The line is new in the temporary log, and the second
  call copies it to the log file: it is appended once. The control block is not
  reset.
\<close>

lemma finish_recovery_write_refused:
  "files (finish_recovery example_layout
        (finish_recovery example_layout (session_env\<lparr>bcb_write_ok := False\<rparr>) None) None)
     LOG_FILE
     = Some (''Starting recovery'' @ [LF] @ ''E:Can't write the bootloader message'' @ [LF])
   \<and> bcb (finish_recovery example_layout
        (finish_recovery example_layout (session_env\<lparr>bcb_write_ok := False\<rparr>) None) None)
     = example_request"
proof -
  let ?E = "session_env\<lparr>bcb_write_ok := False\<rparr>"
  let ?e1 = "finish_recovery example_layout ?E None"
  have fe: "finish_errors ?E None = [''E:Can't write the bootloader message'']"
    by (simp add: finish_errors_def intent_errors_def log_errors_def bcb_errors_def
        unlink_errors_def opens_for_change_def session_fields)
  have ie: "intent_errors y None = []" for y by (simp add: intent_errors_def)
  have t1: "files ?e1 TEMPORARY_LOG_FILE
      = Some (''Starting recovery'' @ [LF] @ ''E:Can't write the bootloader message'' @ [LF])"
    by (simp add: finish_recovery_tmplog fe logged_def log_text_def session_fields)
  have o1: "tmplog_offset ?e1 = 18"
    by (simp add: finish_recovery_offset ie logged_simps opens_for_change_def session_fields)
  have l1: "files ?e1 LOG_FILE = Some (''Starting recovery'' @ [LF])"
    by (simp add: finish_recovery_files ie logged_simps opens_for_change_def session_fields
        copied_starting [simplified])
  have ct: "copied_text (''E:Can't write the bootloader message'' @ [LF])
      = ''E:Can't write the bootloader message'' @ [LF]"
    by (simp add: copied_text.simps fgets_def cstr_def LF_def NUL_def Let_def)
  have "files (finish_recovery example_layout ?e1 None) LOG_FILE
      = Some (''Starting recovery'' @ [LF] @ ''E:Can't write the bootloader message'' @ [LF])"
    by (simp add: finish_recovery_files [of LOG_FILE example_layout ?e1] finish_recovery_config
        ie logged_simps t1 o1 l1 opens_for_change_def session_fields ct [simplified])
  moreover have "bcb (finish_recovery example_layout ?e1 None) = example_request"
    by (simp add: finish_recovery_bcb finish_recovery_config session_fields)
  ultimately show ?thesis by simp
qed

lemma fgets_long_line:
  assumes "\<forall>c\<in>set xs. c \<noteq> LF" and "sz - 1 \<le> length xs" and "0 < sz - 1"
  shows "fgets sz (xs @ ys) = Some (take (sz - 1) xs, drop (sz - 1) xs @ ys)"
proof -
  have "length xs \<le> length (takeWhile (\<lambda>c. c \<noteq> LF) (xs @ ys))"
    using assms(1) by simp
  then have "min (sz - 1) (Suc (length (takeWhile (\<lambda>c. c \<noteq> LF) (xs @ ys)))) = sz - 1"
    using assms(2) by simp
  moreover have "xs @ ys \<noteq> []" using assms(2,3) by auto
  ultimately show ?thesis using assms(2) by (simp add: fgets_def Let_def)
qed

lemma strtok_plain:
  assumes "s \<noteq> []" and "set s \<inter> set delim = {}"
  shows "strtok s delim = Some (s, [])"
proof -
  have 1: "dropWhile (\<lambda>c. c \<in> set delim) s = s"
    using assms by (cases s) auto
  have 2: "takeWhile (\<lambda>c. c \<notin> set delim) s = s" using assms(2) by auto
  have 3: "dropWhile (\<lambda>c. c \<notin> set delim) s = []" using assms(2) by auto
  show ?thesis using assms(1) by (simp add: strtok_def Let_def 1 2 3)
qed

lemma command_file_args_long_line:
  "command_file_args (Suc 0) (replicate 8190 (CHR ''a'') @ [LF]) = Inl NullDereference"
proof -
  let ?a = "CHR ''a''"
  have nl: "\<forall>c\<in>set (replicate n ?a). c \<noteq> LF" for n by (simp add: LF_def)
  have f1: "fgets MAX_ARG_LENGTH (replicate 8190 ?a @ [LF])
      = Some (replicate 4095 ?a, replicate 4095 ?a @ [LF])"
    using fgets_long_line [OF nl, of MAX_ARG_LENGTH 8190 "[LF]"] by (simp add: MAX_ARG_LENGTH_def)
  have f2: "fgets MAX_ARG_LENGTH (replicate 4095 ?a @ [LF]) = Some (replicate 4095 ?a, [LF])"
    using fgets_long_line [OF nl, of MAX_ARG_LENGTH 4095 "[LF]"] by (simp add: MAX_ARG_LENGTH_def)
  have f3: "fgets MAX_ARG_LENGTH [LF] = Some ([LF], [])"
    by (simp add: fgets_def MAX_ARG_LENGTH_def)
  have c: "cstr (replicate 4095 ?a) = replicate 4095 ?a" by (simp add: cstr_id NUL_def)
  have t: "strtok (replicate 4095 ?a) [CR, LF] = Some (replicate 4095 ?a, [])"
    by (rule strtok_plain) (auto simp: CR_def LF_def)
  have b: "strtok (cstr [LF]) [CR, LF] = None"
    by (simp add: cstr_def strtok_def NUL_def LF_def)
  have 3: "command_file_args (Suc (Suc (Suc 0))) [LF] = Inl NullDereference"
    by (subst command_file_args.simps) (simp add: MAX_ARGS_def f3 b)
  have 2: "command_file_args (Suc (Suc 0)) (replicate 4095 ?a @ [LF]) = Inl NullDereference"
    by (subst command_file_args.simps) (simp add: MAX_ARGS_def f2 c t 3)
  show ?thesis
    by (subst command_file_args.simps) (simp add: MAX_ARGS_def f1 c t 2)
qed

text \<open>
  C7 (truncation bound): the claim says that an argument longer than
  \<open>MAX_ARG_LENGTH\<close> is cut and never crashes \<open>get_args\<close>. A command file whose only
  line has 8190 characters is read in two pieces of 4095 characters and a third
  piece that is the line feed alone; for the third \<open>strtok\<close> returns \<open>NULL\<close>, and
  \<open>get_args\<close> does not return.
\<close>

theorem get_args_long_line_crash:
  "get_args example_layout
     (example_env\<lparr>files := [COMMAND_FILE \<mapsto> replicate 8190 (CHR ''a'') @ [LF]]\<rparr>) [''recovery'']
   = Inl NullDereference"
  by (simp add: get_args_def get_bootloader_message_def example_fields args_from_zero_message
      zero_message_def [THEN arg_cong, of command] zero_message_def [THEN arg_cong, of status]
      args_from_command_file_def fopen_root_path_def ensure_root_path_mounted_def
      translate_root_path_def fopen_def Let_def command_file_args_long_line)

lemma command_file_args_over_long_line:
  "command_file_args (Suc 0) (replicate 4096 (CHR ''a'') @ [LF])
     = Inr [replicate 4095 (CHR ''a''), ''a'']"
proof -
  let ?a = "CHR ''a''"
  have nl: "\<forall>c\<in>set (replicate n ?a). c \<noteq> LF" for n by (simp add: LF_def)
  have f1: "fgets MAX_ARG_LENGTH (replicate 4096 ?a @ [LF])
      = Some (replicate 4095 ?a, [?a, LF])"
    using fgets_long_line [OF nl, of MAX_ARG_LENGTH 4096 "[LF]"] by (simp add: MAX_ARG_LENGTH_def)
  have f2: "fgets MAX_ARG_LENGTH [?a, LF] = Some ([?a, LF], [])"
    by (simp add: fgets_def MAX_ARG_LENGTH_def LF_def)
  have f3: "fgets MAX_ARG_LENGTH [] = None" by (simp add: fgets_def)
  have c: "cstr (replicate 4095 ?a) = replicate 4095 ?a" by (simp add: cstr_id NUL_def)
  have t: "strtok (replicate 4095 ?a) [CR, LF] = Some (replicate 4095 ?a, [])"
    by (rule strtok_plain) (auto simp: CR_def LF_def)
  have b: "strtok (cstr [?a, LF]) [CR, LF] = Some (''a'', [])"
    by (simp add: cstr_def strtok_def NUL_def LF_def CR_def)
  have 3: "command_file_args (Suc (Suc (Suc 0))) [] = Inr []"
    by (subst command_file_args.simps) (simp add: MAX_ARGS_def f3)
  have 2: "command_file_args (Suc (Suc 0)) [?a, LF] = Inr [''a'']"
    by (subst command_file_args.simps) (simp add: MAX_ARGS_def f2 b 3)
  show ?thesis
    by (subst command_file_args.simps) (simp add: MAX_ARGS_def f1 c t 2)
qed

text \<open>
  Where no piece of an over-long line is blank, \<open>get_args\<close> returns, and what lies
  beyond the first \<open>MAX_ARG_LENGTH - 1\<close> characters of the line is not dropped: it is
  the next argument.
\<close>

lemma get_args_over_long_line:
  "\<exists>env'. get_args example_layout
            (example_env\<lparr>files := [COMMAND_FILE \<mapsto> replicate 4096 (CHR ''a'') @ [LF]]\<rparr>)
            [''recovery'']
          = Inr ([''recovery'', replicate 4095 (CHR ''a''), ''a''], env')"
  by (simp add: get_args_def get_bootloader_message_def example_fields args_from_zero_message
      zero_message_def [THEN arg_cong, of command] zero_message_def [THEN arg_cong, of status]
      args_from_command_file_def fopen_root_path_def ensure_root_path_mounted_def
      translate_root_path_def fopen_def Let_def command_file_args_over_long_line)


end
